theory Spec2Isabelle
  imports Complex_Main "HOL-Library.AList"
begin

section \<open>Python strings\<close>

text \<open>
  A Python \<^verbatim>\<open>str\<close> is modelled as a \<^typ>\<open>string\<close> whose characters are the code
  points below 256.  The predicates below follow the Python built-ins on that range.
\<close>

text \<open>\<^verbatim>\<open>str.isspace\<close> on one character: the characters \<^verbatim>\<open>str.strip()\<close> and
  \<^verbatim>\<open>str.split()\<close> treat as whitespace.\<close>

definition is_space :: "char \<Rightarrow> bool" where
  "is_space c = (c \<in> set [CHR 0x09, CHR 0x0A, CHR 0x0B, CHR 0x0C, CHR 0x0D,
                           CHR 0x1C, CHR 0x1D, CHR 0x1E, CHR 0x1F, CHR 0x20,
                           CHR 0x85, CHR 0xA0])"

text \<open>\<^verbatim>\<open>text.strip()\<close>\<close>

definition strip :: "string \<Rightarrow> string" where
  "strip s = rev (dropWhile is_space (rev (dropWhile is_space s)))"

text \<open>\<^verbatim>\<open>text.split()\<close>: the maximal runs of non-whitespace characters, in order.\<close>

function split_ws :: "string \<Rightarrow> string list" where
  "split_ws s =
     (let t = dropWhile is_space s
      in if t = [] then []
         else takeWhile (\<lambda>c. \<not> is_space c) t # split_ws (dropWhile (\<lambda>c. \<not> is_space c) t))"
  by pat_completeness auto
termination
proof (relation "measure length")
  show "wf (measure length)" by simp
next
  fix s t :: string
  assume t: "t = dropWhile is_space s" and ne: "t \<noteq> []"
  have "length (dropWhile (\<lambda>c. \<not> is_space c) t) < length t"
  proof (cases t)
    case Nil
    with ne show ?thesis by simp
  next
    case (Cons c cs)
    have "dropWhile is_space s = c # cs"
      using t Cons by simp
    then have "\<not> is_space c"
      using hd_dropWhile [of is_space s] by simp
    then have "dropWhile (\<lambda>c. \<not> is_space c) t = dropWhile (\<lambda>c. \<not> is_space c) cs"
      using Cons by simp
    moreover have "length (dropWhile (\<lambda>c. \<not> is_space c) cs) \<le> length cs"
      by (rule length_dropWhile_le)
    ultimately show ?thesis using Cons by simp
  qed
  also have "length t \<le> length s"
    unfolding t by (rule length_dropWhile_le)
  finally show "(dropWhile (\<lambda>c. \<not> is_space c) t, s) \<in> measure length"
    by simp
qed

declare split_ws.simps [simp del]

text \<open>\<^verbatim>\<open>text.split(sep)\<close> for a one-character separator: every occurrence splits, empty
  pieces are kept.\<close>

fun split_on :: "char \<Rightarrow> string \<Rightarrow> string list" where
  "split_on sep [] = [[]]"
| "split_on sep (c # cs) =
     (if c = sep then [] # split_on sep cs
      else (case split_on sep cs of
              [] \<Rightarrow> [[c]]
            | p # ps \<Rightarrow> (c # p) # ps))"

text \<open>\<^verbatim>\<open>text.replace(",", "")\<close>\<close>

definition remove_commas :: "string \<Rightarrow> string" where
  "remove_commas s = filter (\<lambda>c. c \<noteq> CHR '','') s"

text \<open>\<^verbatim>\<open>text.endswith("%")\<close>\<close>

definition ends_with_percent :: "string \<Rightarrow> bool" where
  "ends_with_percent s = (s \<noteq> [] \<and> last s = CHR ''%'')"

text \<open>
  \<^verbatim>\<open>str.upper\<close> on the code points below 256.  Python changes the letters \<^verbatim>\<open>a\<close> to
  \<^verbatim>\<open>z\<close>, the thirty accented small letters from 0xE0 to 0xFE (0xF7, the division sign,
  is no letter), which have their capitals 32 places below, and the sharp s (0xDF), which
  becomes \<^verbatim>\<open>SS\<close>.  It also changes the micro sign (0xB5) and the y with diaeresis (0xFF),
  into capitals above 255: these two are outside the model, which leaves them as they
  are, and \<open>upper_in_range\<close> says that a text has neither.
\<close>

definition latin1_small :: "string" where
  "latin1_small =
     [CHR 0xE0, CHR 0xE1, CHR 0xE2, CHR 0xE3, CHR 0xE4, CHR 0xE5, CHR 0xE6, CHR 0xE7,
      CHR 0xE8, CHR 0xE9, CHR 0xEA, CHR 0xEB, CHR 0xEC, CHR 0xED, CHR 0xEE, CHR 0xEF,
      CHR 0xF0, CHR 0xF1, CHR 0xF2, CHR 0xF3, CHR 0xF4, CHR 0xF5, CHR 0xF6, CHR 0xF8,
      CHR 0xF9, CHR 0xFA, CHR 0xFB, CHR 0xFC, CHR 0xFD, CHR 0xFE]"

definition latin1_capital :: "string" where
  "latin1_capital =
     [CHR 0xC0, CHR 0xC1, CHR 0xC2, CHR 0xC3, CHR 0xC4, CHR 0xC5, CHR 0xC6, CHR 0xC7,
      CHR 0xC8, CHR 0xC9, CHR 0xCA, CHR 0xCB, CHR 0xCC, CHR 0xCD, CHR 0xCE, CHR 0xCF,
      CHR 0xD0, CHR 0xD1, CHR 0xD2, CHR 0xD3, CHR 0xD4, CHR 0xD5, CHR 0xD6, CHR 0xD8,
      CHR 0xD9, CHR 0xDA, CHR 0xDB, CHR 0xDC, CHR 0xDD, CHR 0xDE]"

definition upper_char :: "char \<Rightarrow> string" where
  "upper_char c =
     (if c = CHR 0xDF then ''SS''
      else (case map_of (zip (''abcdefghijklmnopqrstuvwxyz'' @ latin1_small)
                             (''ABCDEFGHIJKLMNOPQRSTUVWXYZ'' @ latin1_capital)) c of
              None \<Rightarrow> [c]
            | Some u \<Rightarrow> [u]))"

definition upper :: "string \<Rightarrow> string" where
  "upper s = concat (map upper_char s)"

definition upper_in_range :: "string \<Rightarrow> bool" where
  "upper_in_range s = (CHR 0xB5 \<notin> set s \<and> CHR 0xFF \<notin> set s)"

text \<open>The lower case of the ASCII letters, as \<^verbatim>\<open>float()\<close> compares \<^verbatim>\<open>inf\<close> and \<^verbatim>\<open>nan\<close>;
  every other character is left as it is.\<close>

definition lower_char :: "char \<Rightarrow> char" where
  "lower_char c =
     (case map_of (zip ''ABCDEFGHIJKLMNOPQRSTUVWXYZ'' ''abcdefghijklmnopqrstuvwxyz'') c of
        None \<Rightarrow> c | Some l \<Rightarrow> l)"

definition lower :: "string \<Rightarrow> string" where
  "lower s = map lower_char s"


section \<open>Python exceptions and floats\<close>

datatype py_error = ValueError | IndexError | SystemExit | QuoteSourceError

text \<open>
  A Python \<^verbatim>\<open>float\<close>.  The binary64 values are kept abstract (the type \<^typ>\<open>'d\<close>): the
  interpreter's correctly rounded conversion from a decimal to a float is the parameter
  \<open>rnd\<close> of \<open>py_float\<close> below, which takes the sign (\<open>True\<close> for minus) and the
  magnitude and may overflow to an infinity.
\<close>

datatype 'd pyfloat = Finite 'd | Inf bool | NaN

type_synonym 'd rounding = "bool \<Rightarrow> rat \<Rightarrow> 'd pyfloat"

text \<open>The rounding that keeps the decimal itself: the instance used to evaluate examples.\<close>

definition exact :: "(bool \<times> rat) rounding" where
  "exact neg q = Finite (neg, q)"

definition is_digit :: "char \<Rightarrow> bool" where
  "is_digit c = (c \<in> set ''0123456789'')"

definition digit_val :: "char \<Rightarrow> nat" where
  "digit_val c = of_char c - 48"

definition nat_of_digits :: "string \<Rightarrow> nat" where
  "nat_of_digits ds = foldl (\<lambda>n c. 10 * n + digit_val c) 0 ds"

text \<open>The whitespace \<^verbatim>\<open>float()\<close> removes around its argument: the ASCII whitespace, and
  the two other whitespace characters below 256, which it first turns into spaces.\<close>

definition is_float_space :: "char \<Rightarrow> bool" where
  "is_float_space c = (c \<in> set [CHR 0x09, CHR 0x0A, CHR 0x0B, CHR 0x0C, CHR 0x0D, CHR 0x20,
                                 CHR 0x85, CHR 0xA0])"

definition float_strip :: "string \<Rightarrow> string" where
  "float_strip s = rev (dropWhile is_float_space (rev (dropWhile is_float_space s)))"

text \<open>An underscore is accepted only between two digits.\<close>

fun underscores_ok :: "char \<Rightarrow> string \<Rightarrow> bool" where
  "underscores_ok prev [] = (prev \<noteq> CHR ''_'')"
| "underscores_ok prev (c # cs) =
     (if c = CHR ''_'' then is_digit prev \<and> underscores_ok c cs
      else (prev = CHR ''_'' \<longrightarrow> is_digit c) \<and> underscores_ok c cs)"

definition take_sign :: "string \<Rightarrow> bool \<times> string" where
  "take_sign s =
     (case s of
        [] \<Rightarrow> (False, [])
      | c # cs \<Rightarrow> if c = CHR ''+'' then (False, cs)
                  else if c = CHR ''-'' then (True, cs)
                  else (False, s))"

text \<open>
  The exponent part of a float literal, after the mantissa: nothing, or \<^verbatim>\<open>e\<close>/\<^verbatim>\<open>E\<close>, an
  optional sign and at least one digit.  The result is the factor it stands for.
\<close>

definition parse_exponent :: "string \<Rightarrow> rat option" where
  "parse_exponent s =
     (case s of
        [] \<Rightarrow> Some 1
      | c # cs \<Rightarrow>
          if c = CHR ''e'' \<or> c = CHR ''E'' then
            (let (neg, ds) = take_sign cs
             in if ds \<noteq> [] \<and> list_all is_digit ds
                then Some (if neg then 1 / 10 ^ nat_of_digits ds else 10 ^ nat_of_digits ds)
                else None)
          else None)"

text \<open>
  An unsigned float literal: digits, an optional point and more digits (at least one digit
  in all), and an optional exponent.  The result is its exact decimal value.
\<close>

definition parse_number :: "string \<Rightarrow> rat option" where
  "parse_number s =
     (let ip = takeWhile is_digit s;
          r1 = dropWhile is_digit s;
          fp = (case r1 of
                  [] \<Rightarrow> []
                | c # cs \<Rightarrow> if c = CHR ''.'' then takeWhile is_digit cs else []);
          r2 = (case r1 of
                  [] \<Rightarrow> []
                | c # cs \<Rightarrow> if c = CHR ''.'' then dropWhile is_digit cs else r1)
      in if ip = [] \<and> fp = [] then None
         else (case parse_exponent r2 of
                 None \<Rightarrow> None
               | Some f \<Rightarrow>
                   Some ((of_nat (nat_of_digits ip)
                          + of_nat (nat_of_digits fp) / 10 ^ length fp) * f)))"

text \<open>
  \<^verbatim>\<open>float(text)\<close> on a string, after the grammar of the Python library reference:
  \<open>Inl ValueError\<close> where Python raises.  Case is not significant in \<^verbatim>\<open>inf\<close>,
  \<^verbatim>\<open>infinity\<close> and \<^verbatim>\<open>nan\<close>; surrounding whitespace is removed; an underscore may
  stand between two digits.  A sign before \<^verbatim>\<open>nan\<close> does not show in the result.
\<close>

definition py_float :: "'d rounding \<Rightarrow> string \<Rightarrow> py_error + 'd pyfloat" where
  "py_float rnd s =
     (let t = float_strip s
      in if \<not> underscores_ok (CHR 0x00) t then Inl ValueError
         else
           (let (neg, body) = take_sign (filter (\<lambda>c. c \<noteq> CHR ''_'') t)
            in if lower body = ''inf'' \<or> lower body = ''infinity'' then Inr (Inf neg)
               else if lower body = ''nan'' then Inr NaN
               else (case parse_number body of
                       None \<Rightarrow> Inl ValueError
                     | Some q \<Rightarrow> Inr (rnd neg q))))"

text \<open>\<^verbatim>\<open>str(x)\<close> of a float: fixed texts for the special values; the digits of a finite
  value are the interpreter's shortest round-tripping representation, the parameter
  \<open>digits\<close>.\<close>

fun py_str :: "('d \<Rightarrow> string) \<Rightarrow> 'd pyfloat \<Rightarrow> string" where
  "py_str digits NaN = ''nan''"
| "py_str digits (Inf neg) = (if neg then ''-inf'' else ''inf'')"
| "py_str digits (Finite d) = digits d"


section \<open>Helper parsers\<close>

text \<open>The set literal \<^verbatim>\<open>{"", "-", "NaN", "nan"}\<close> of the three parsers.\<close>

definition SENTINELS :: "string set" where
  "SENTINELS = {'''', ''-'', ''NaN'', ''nan''}"

text \<open>
  \<^verbatim>\<open>try: return float(text)\<close> \<^verbatim>\<open>except ValueError: return None\<close>: only a
  \<open>ValueError\<close> is caught.
\<close>

definition float_or_none :: "'d rounding \<Rightarrow> string \<Rightarrow> py_error + 'd pyfloat option" where
  "float_or_none rnd text =
     (case py_float rnd text of
        Inl e \<Rightarrow> (if e = ValueError then Inr None else Inl e)
      | Inr f \<Rightarrow> Inr (Some f))"

definition parse_float :: "'d rounding \<Rightarrow> string option \<Rightarrow> py_error + 'd pyfloat option" where
  "parse_float rnd value =
     (case value of
        None \<Rightarrow> Inr None
      | Some v \<Rightarrow>
          (let text = strip v
           in if text \<in> SENTINELS then Inr None
              else float_or_none rnd (remove_commas text)))"

definition parse_percent :: "'d rounding \<Rightarrow> string option \<Rightarrow> py_error + 'd pyfloat option" where
  "parse_percent rnd value =
     (case value of
        None \<Rightarrow> Inr None
      | Some v \<Rightarrow>
          (let text = strip v
           in if text \<in> SENTINELS then Inr None
              else
                (let text = (if ends_with_percent text then butlast text else text)
                 in float_or_none rnd (remove_commas text))))"

text \<open>\<^verbatim>\<open>parts[i]\<close> on a list: an index out of range raises.\<close>

definition py_index :: "'a list \<Rightarrow> nat \<Rightarrow> py_error + 'a" where
  "py_index xs i = (if i < length xs then Inr (xs ! i) else Inl IndexError)"

definition parse_high_low ::
  "'d rounding \<Rightarrow> string option \<Rightarrow> py_error + ('d pyfloat option \<times> 'd pyfloat option)" where
  "parse_high_low rnd value =
     (case value of
        None \<Rightarrow> Inr (None, None)
      | Some v \<Rightarrow>
          (let text = strip v
           in if text \<in> SENTINELS then Inr (None, None)
              else
                (let parts = split_ws text
                 in case (if parts \<noteq> []
                          then (case py_index parts 0 of
                                  Inl e \<Rightarrow> Inl e
                                | Inr p \<Rightarrow> parse_float rnd (Some p))
                          else Inr None) of
                      Inl e \<Rightarrow> Inl e
                    | Inr price \<Rightarrow>
                        (case (if length parts > 1
                               then (case py_index parts 1 of
                                       Inl e \<Rightarrow> Inl e
                                     | Inr p \<Rightarrow> parse_percent rnd (Some p))
                               else Inr None) of
                           Inl e \<Rightarrow> Inl e
                         | Inr pct \<Rightarrow> Inr (price, pct)))))"


section \<open>Field mapping\<close>

text \<open>A value of a row: a string, a float or \<^verbatim>\<open>None\<close>.\<close>

datatype 'd cell = Str string | Num "'d pyfloat" | PyNone

definition str_cell :: "string option \<Rightarrow> 'd cell" where
  "str_cell v = (case v of None \<Rightarrow> PyNone | Some s \<Rightarrow> Str s)"

definition num_cell :: "'d pyfloat option \<Rightarrow> 'd cell" where
  "num_cell v = (case v of None \<Rightarrow> PyNone | Some f \<Rightarrow> Num f)"

text \<open>
  The raw quote \<^verbatim>\<open>fundament\<close>: a dict from field names to strings, read only through
  \<^verbatim>\<open>fundament.get(field)\<close>, which is \<^verbatim>\<open>None\<close> for an absent key.  A row is a dict in
  insertion order: \<^verbatim>\<open>row[col] = v\<close> is \<^const>\<open>AList.update\<close>.
\<close>

type_synonym raw_quote = "string \<Rightarrow> string option"

type_synonym 'd row = "(string \<times> 'd cell) list"

type_synonym 'd parser = "string option \<Rightarrow> py_error + 'd pyfloat option"

definition COMMON_FIELD_MAP :: "'d rounding \<Rightarrow> (string \<times> string \<times> 'd parser) list" where
  "COMMON_FIELD_MAP rnd =
    [(''Price'', ''price'', parse_float rnd),
     (''Change'', ''change_pct'', parse_percent rnd),
     (''P/E'', ''pe'', parse_float rnd),
     (''Forward P/E'', ''forward_pe'', parse_float rnd),
     (''PEG'', ''peg'', parse_float rnd),
     (''EPS this Y'', ''eps_growth_this_year_pct'', parse_percent rnd),
     (''EPS next Y'', ''eps_next_year'', parse_float rnd),
     (''EPS next 5Y'', ''eps_next_5y_pct'', parse_percent rnd),
     (''Sales Y/Y TTM'', ''sales_yoy_ttm_pct'', parse_percent rnd),
     (''EPS Q/Q'', ''eps_qoq_pct'', parse_percent rnd),
     (''Sales Q/Q'', ''sales_qoq_pct'', parse_percent rnd),
     (''ROE'', ''roe_pct'', parse_percent rnd),
     (''ROIC'', ''roic_pct'', parse_percent rnd),
     (''Gross Margin'', ''gross_margin_pct'', parse_percent rnd),
     (''Oper. Margin'', ''oper_margin_pct'', parse_percent rnd),
     (''Profit Margin'', ''profit_margin_pct'', parse_percent rnd),
     (''Debt/Eq'', ''debt_to_equity'', parse_float rnd),
     (''LT Debt/Eq'', ''lt_debt_to_equity'', parse_float rnd),
     (''Current Ratio'', ''current_ratio'', parse_float rnd),
     (''Quick Ratio'', ''quick_ratio'', parse_float rnd),
     (''Short Float'', ''short_float_pct'', parse_percent rnd),
     (''Short Ratio'', ''short_ratio'', parse_float rnd),
     (''Insider Own'', ''insider_own_pct'', parse_percent rnd),
     (''Insider Trans'', ''insider_trans_pct'', parse_percent rnd),
     (''Inst Own'', ''institutional_own_pct'', parse_percent rnd),
     (''Inst Trans'', ''institutional_trans_pct'', parse_percent rnd),
     (''Perf Week'', ''perf_week_pct'', parse_percent rnd),
     (''Perf Month'', ''perf_month_pct'', parse_percent rnd),
     (''SMA20'', ''sma20_pct'', parse_percent rnd),
     (''SMA50'', ''sma50_pct'', parse_percent rnd),
     (''SMA200'', ''sma200_pct'', parse_percent rnd),
     (''RSI (14)'', ''rsi_14'', parse_float rnd)]"

definition HIGH_LOW_FIELDS :: "(string \<times> string \<times> string) list" where
  "HIGH_LOW_FIELDS =
    [(''52W High'', ''52w_high_price'', ''52w_high_distance_pct''),
     (''52W Low'', ''52w_low_price'', ''52w_low_distance_pct'')]"


section \<open>Building one row\<close>

text \<open>The loop over \<^verbatim>\<open>COMMON_FIELD_MAP.items()\<close>; an exception of a parser ends it.\<close>

fun common_fields ::
  "(string \<times> string \<times> 'd parser) list \<Rightarrow> raw_quote \<Rightarrow> 'd row \<Rightarrow> py_error + 'd row" where
  "common_fields [] fundament row = Inr row"
| "common_fields ((field, col, parser) # rest) fundament row =
     (case parser (fundament field) of
        Inl e \<Rightarrow> Inl e
      | Inr v \<Rightarrow> common_fields rest fundament (AList.update col (num_cell v) row))"

text \<open>The loop over \<^verbatim>\<open>HIGH_LOW_FIELDS.items()\<close>.\<close>

fun high_low_fields ::
  "'d rounding \<Rightarrow> (string \<times> string \<times> string) list \<Rightarrow> raw_quote \<Rightarrow> 'd row
     \<Rightarrow> py_error + 'd row" where
  "high_low_fields rnd [] fundament row = Inr row"
| "high_low_fields rnd ((field, price_col, distance_col) # rest) fundament row =
     (case parse_high_low rnd (fundament field) of
        Inl e \<Rightarrow> Inl e
      | Inr (price, pct) \<Rightarrow>
          high_low_fields rnd rest fundament
            (AList.update distance_col (num_cell pct)
               (AList.update price_col (num_cell price) row)))"

text \<open>The body of the loop of \<^verbatim>\<open>collect_quote_features\<close> for one ticker, after the
  quote source has answered.\<close>

definition build_record :: "'d rounding \<Rightarrow> string \<Rightarrow> raw_quote \<Rightarrow> py_error + 'd row" where
  "build_record rnd ticker fundament =
     (let row = [(''ticker'', Str (upper ticker)),
                 (''sector'', str_cell (fundament ''Sector'')),
                 (''industry'', str_cell (fundament ''Industry'')),
                 (''country'', str_cell (fundament ''Country''))]
      in case common_fields (COMMON_FIELD_MAP rnd) fundament row of
           Inl e \<Rightarrow> Inl e
         | Inr row \<Rightarrow> high_low_fields rnd HIGH_LOW_FIELDS fundament row)"


section \<open>The snapshot\<close>

text \<open>
  A pandas \<^verbatim>\<open>DataFrame\<close>: the column labels and the rows of cells.
  \<^verbatim>\<open>pd.DataFrame(rows)\<close> on a list of dicts takes as columns the keys in the order of
  their first appearance and fills a key a row lacks with NaN.  A column that holds a
  float and no string becomes a column of floats: \<^verbatim>\<open>None\<close> in it becomes NaN.
\<close>

record 'd dataframe =
  columns :: "string list"
  data :: "'d cell list list"

definition union_keys :: "'d row list \<Rightarrow> string list" where
  "union_keys rows =
     fold (\<lambda>k cols. if k \<in> set cols then cols else cols @ [k]) (concat (map (map fst) rows)) []"

definition lookup_cell :: "'d row \<Rightarrow> string \<Rightarrow> 'd cell" where
  "lookup_cell row c = (case map_of row c of None \<Rightarrow> Num NaN | Some v \<Rightarrow> v)"

definition is_num :: "'d cell \<Rightarrow> bool" where
  "is_num v = (case v of Num f \<Rightarrow> True | _ \<Rightarrow> False)"

definition is_str :: "'d cell \<Rightarrow> bool" where
  "is_str v = (case v of Str s \<Rightarrow> True | _ \<Rightarrow> False)"

definition float_column :: "'d row list \<Rightarrow> string \<Rightarrow> bool" where
  "float_column rows c =
     (list_ex (\<lambda>row. is_num (lookup_cell row c)) rows
      \<and> \<not> list_ex (\<lambda>row. is_str (lookup_cell row c)) rows)"

definition frame_cell :: "'d row list \<Rightarrow> 'd row \<Rightarrow> string \<Rightarrow> 'd cell" where
  "frame_cell rows row c =
     (case lookup_cell row c of
        PyNone \<Rightarrow> if float_column rows c then Num NaN else PyNone
      | v \<Rightarrow> v)"

definition pd_DataFrame :: "'d row list \<Rightarrow> 'd dataframe" where
  "pd_DataFrame rows =
     \<lparr>columns = union_keys rows,
      data = map (\<lambda>row. map (frame_cell rows row) (union_keys rows)) rows\<rparr>"

text \<open>
  \<^verbatim>\<open>df.insert(loc, column, value)\<close> with a scalar value: the label must be new and
  \<open>loc\<close> at most the number of columns, else pandas raises.
\<close>

definition df_insert ::
  "nat \<Rightarrow> string \<Rightarrow> 'd cell \<Rightarrow> 'd dataframe \<Rightarrow> py_error + 'd dataframe" where
  "df_insert loc column v df =
     (if column \<in> set (columns df) then Inl ValueError
      else if loc > length (columns df) then Inl IndexError
      else Inr \<lparr>columns = take loc (columns df) @ [column] @ drop loc (columns df),
                data = map (\<lambda>r. take loc r @ [v] @ drop loc r) (data df)\<rparr>)"

text \<open>\<^verbatim>\<open>df.to_dict(orient="records")\<close>: every row as a dict from column label to cell.\<close>

definition df_records :: "'d dataframe \<Rightarrow> 'd row list" where
  "df_records df = map (\<lambda>r. zip (columns df) r) (data df)"

text \<open>
  The quote source \<^verbatim>\<open>finvizfinance(ticker).ticker_fundament()\<close> and the clock
  \<^verbatim>\<open>datetime.now(timezone.utc).isoformat()\<close> belong to the world outside: the state
  \<^typ>\<open>'w\<close> is threaded through the calls, the source answers with a raw quote or raises,
  and the clock is read from the state.
\<close>

type_synonym 'w quote_source = "'w \<Rightarrow> string \<Rightarrow> (py_error + raw_quote) \<times> 'w"

fun collect_rows ::
  "'d rounding \<Rightarrow> 'w quote_source \<Rightarrow> 'w \<Rightarrow> string list \<Rightarrow> py_error + ('d row list \<times> 'w)" where
  "collect_rows rnd source w [] = Inr ([], w)"
| "collect_rows rnd source w (ticker # tickers) =
     (case source w ticker of
        (Inl e, w1) \<Rightarrow> Inl e
      | (Inr fundament, w1) \<Rightarrow>
          (case build_record rnd ticker fundament of
             Inl e \<Rightarrow> Inl e
           | Inr row \<Rightarrow>
               (case collect_rows rnd source w1 tickers of
                  Inl e \<Rightarrow> Inl e
                | Inr (rows, w2) \<Rightarrow> Inr (row # rows, w2))))"

definition collect_quote_features ::
  "'d rounding \<Rightarrow> 'w quote_source \<Rightarrow> ('w \<Rightarrow> string) \<Rightarrow> 'w \<Rightarrow> string list
     \<Rightarrow> py_error + 'd dataframe" where
  "collect_quote_features rnd source now w tickers =
     (case collect_rows rnd source w tickers of
        Inl e \<Rightarrow> Inl e
      | Inr (rows, w') \<Rightarrow> df_insert 1 ''snapshot_utc'' (Str (now w')) (pd_DataFrame rows))"


section \<open>The command line\<close>

text \<open>The ticker list of \<^verbatim>\<open>main\<close>, from the argument \<^verbatim>\<open>--tickers\<close>.\<close>

definition main_tickers :: "string \<Rightarrow> py_error + string list" where
  "main_tickers arg =
     (let tickers = map (\<lambda>t. upper (strip t))
                        (filter (\<lambda>t. strip t \<noteq> []) (split_on (CHR '','') arg))
      in if tickers = [] then Inl SystemExit else Inr tickers)"

definition main_collect ::
  "'d rounding \<Rightarrow> 'w quote_source \<Rightarrow> ('w \<Rightarrow> string) \<Rightarrow> 'w \<Rightarrow> string
     \<Rightarrow> py_error + 'd dataframe" where
  "main_collect rnd source now w arg =
     (case main_tickers arg of
        Inl e \<Rightarrow> Inl e
      | Inr tickers \<Rightarrow> collect_quote_features rnd source now w tickers)"

section \<open>An example world\<close>

text \<open>
  A quote source and a clock to run the collection on: the state of the world is the
  number of quotes asked for so far, the source knows no field of any ticker, and the
  clock shows one second more after each of the first two calls of the source.
\<close>

definition counting_source :: "nat quote_source" where
  "counting_source w ticker = (Inr (\<lambda>field. None), Suc w)"

definition example_clock :: "nat \<Rightarrow> string" where
  "example_clock w =
     (if w = 0 then ''2024-01-01T00:00:00+00:00''
      else if w = 1 then ''2024-01-01T00:00:01+00:00''
      else ''2024-01-01T00:00:02+00:00'')"


section \<open>Trimming a list at both ends\<close>

lemma trim_hd_last:
  assumes "rev (dropWhile P (rev (dropWhile P s))) \<noteq> []"
  shows "\<not> P (hd (rev (dropWhile P (rev (dropWhile P s)))))"
    and "\<not> P (last (rev (dropWhile P (rev (dropWhile P s)))))"
proof -
  let ?t = "dropWhile P s"
  let ?d = "dropWhile P (rev ?t)"
  from assms have d: "?d \<noteq> []" by simp
  then have t: "?t \<noteq> []" by (metis dropWhile.simps(1) rev.simps(1))
  have "\<not> P (hd ?d)" using d by (rule hd_dropWhile)
  then show "\<not> P (last (rev ?d))" using d by (simp add: last_rev)
  have nP: "\<not> P (hd ?t)" using t by (rule hd_dropWhile)
  have "rev ?t = rev (tl ?t) @ [hd ?t]" using t by (cases ?t) simp_all
  then have "?d = dropWhile P (rev (tl ?t)) @ [hd ?t]"
    using nP by (simp add: dropWhile_append3)
  then have "rev ?d = hd ?t # rev (dropWhile P (rev (tl ?t)))" by simp
  then show "\<not> P (hd (rev ?d))" using nP by simp
qed

lemma trim_id:
  assumes "s \<noteq> []" "\<not> P (hd s)" "\<not> P (last s)"
  shows "rev (dropWhile P (rev (dropWhile P s))) = s"
proof -
  have 1: "dropWhile P s = s" using assms(2) by (simp add: dropWhile_eq_self_iff)
  have "hd (rev s) = last s" using assms(1) by (simp add: hd_rev)
  then have "dropWhile P (rev s) = rev s" using assms(3) by (simp add: dropWhile_eq_self_iff)
  with 1 show ?thesis by simp
qed

lemma trim_set: "set (rev (dropWhile P (rev (dropWhile P s)))) \<subseteq> set s"
proof -
  have "set (dropWhile P (rev (dropWhile P s))) \<subseteq> set (rev (dropWhile P s))"
    by (meson subsetI set_dropWhileD)
  also have "\<dots> \<subseteq> set s"
    unfolding set_rev by (meson subsetI set_dropWhileD)
  finally show ?thesis by simp
qed

lemma trim_decompose:
  "\<exists>a b. s = a @ rev (dropWhile P (rev (dropWhile P s))) @ b
         \<and> (\<forall>c\<in>set a. P c) \<and> (\<forall>c\<in>set b. P c)"
proof -
  let ?t = "dropWhile P s"
  have 1: "s = takeWhile P s @ ?t" by simp
  have "rev ?t = takeWhile P (rev ?t) @ dropWhile P (rev ?t)" by simp
  then have "rev (rev ?t) = rev (takeWhile P (rev ?t) @ dropWhile P (rev ?t))" by simp
  then have 2: "?t = rev (dropWhile P (rev ?t)) @ rev (takeWhile P (rev ?t))"
    by (simp only: rev_rev_ident rev_append)
  have "s = takeWhile P s @ rev (dropWhile P (rev ?t)) @ rev (takeWhile P (rev ?t))"
    using 1 2 by metis
  moreover have "\<forall>c\<in>set (takeWhile P s). P c" by (auto dest: set_takeWhileD)
  moreover have "\<forall>c\<in>set (rev (takeWhile P (rev ?t))). P c" by (auto dest: set_takeWhileD)
  ultimately show ?thesis by blast
qed

lemma trim_sandwich:
  assumes "\<forall>c\<in>set a. Q c" "\<forall>c\<in>set b. Q c" "\<forall>c\<in>set t. \<not> Q c"
  shows "rev (dropWhile Q (rev (dropWhile Q (a @ t @ b)))) = t"
proof (cases "t = []")
  case True
  have "dropWhile Q (a @ t @ b) = []"
    using assms(1,2) True by (simp add: dropWhile_eq_Nil_conv ball_Un)
  then have "rev (dropWhile Q (rev (dropWhile Q (a @ t @ b)))) = []"
    by (simp only: rev.simps dropWhile.simps)
  then show ?thesis using True by (simp only:)
next
  case False
  have "dropWhile Q (a @ t @ b) = dropWhile Q (t @ b)"
    using assms(1) by (simp add: dropWhile_append2)
  also have "\<dots> = t @ b"
    using False assms(3) by (cases t) simp_all
  finally have 1: "dropWhile Q (a @ t @ b) = t @ b" .
  have "dropWhile Q (rev b @ rev t) = dropWhile Q (rev t)"
    by (rule dropWhile_append2) (use assms(2) in simp)
  also have "\<dots> = rev t"
    using False assms(3) by (simp add: dropWhile_eq_self_iff hd_rev)
  finally show ?thesis using 1 by simp
qed

lemma trim_weaken:
  assumes PQ: "\<And>c. P c \<Longrightarrow> Q c"
    and t: "\<forall>c\<in>set (rev (dropWhile P (rev (dropWhile P s)))). \<not> Q c"
  shows "rev (dropWhile Q (rev (dropWhile Q s))) = rev (dropWhile P (rev (dropWhile P s)))"
proof -
  obtain a b where s: "s = a @ rev (dropWhile P (rev (dropWhile P s))) @ b"
    and a: "\<forall>c\<in>set a. P c" and b: "\<forall>c\<in>set b. P c"
    using trim_decompose [of s P] by blast
  have "rev (dropWhile Q (rev (dropWhile Q (a @ rev (dropWhile P (rev (dropWhile P s))) @ b))))
        = rev (dropWhile P (rev (dropWhile P s)))"
    by (rule trim_sandwich) (use a b t PQ in auto)
  with s show ?thesis by simp
qed

section \<open>The parsers never raise\<close>

lemma py_float_error: "py_float rnd s = Inl e \<Longrightarrow> e = ValueError"
  unfolding py_float_def Let_def
  by (simp split: if_splits prod.splits option.splits)

lemma float_or_none_total:
  "float_or_none rnd t = Inr (case py_float rnd t of Inl e \<Rightarrow> None | Inr f \<Rightarrow> Some f)"
proof (cases "py_float rnd t")
  case (Inl e)
  then show ?thesis using py_float_error [OF Inl] by (simp add: float_or_none_def)
next
  case (Inr f)
  then show ?thesis by (simp add: float_or_none_def)
qed

lemma parse_float_Some:
  "parse_float rnd (Some v) =
     (if strip v \<in> SENTINELS then Inr None
      else Inr (case py_float rnd (remove_commas (strip v)) of Inl e \<Rightarrow> None | Inr f \<Rightarrow> Some f))"
  by (simp add: parse_float_def Let_def float_or_none_total)

lemma parse_percent_Some:
  "parse_percent rnd (Some v) =
     (if strip v \<in> SENTINELS then Inr None
      else Inr (case py_float rnd (remove_commas
                     (if ends_with_percent (strip v) then butlast (strip v) else strip v)) of
                  Inl e \<Rightarrow> None | Inr f \<Rightarrow> Some f))"
  by (simp add: parse_percent_def Let_def float_or_none_total)

lemma parse_float_total: "\<exists>r. parse_float rnd v = Inr r"
  by (cases v) (simp_all add: parse_float_Some, simp add: parse_float_def)

lemma parse_percent_total: "\<exists>r. parse_percent rnd v = Inr r"
  by (cases v) (simp_all add: parse_percent_Some, simp add: parse_percent_def)

text \<open>The two guarded index accesses of \<open>parse_high_low\<close>, by the number of parts.\<close>

lemma parse_high_low_parts:
  assumes "strip v \<notin> SENTINELS"
  shows "parse_high_low rnd (Some v) =
     (case split_ws (strip v) of
        [] \<Rightarrow> Inr (None, None)
      | [p] \<Rightarrow> (case parse_float rnd (Some p) of
                  Inl e \<Rightarrow> Inl e | Inr price \<Rightarrow> Inr (price, None))
      | p # q # rest \<Rightarrow>
          (case parse_float rnd (Some p) of
             Inl e \<Rightarrow> Inl e
           | Inr price \<Rightarrow>
               (case parse_percent rnd (Some q) of
                  Inl e \<Rightarrow> Inl e | Inr pct \<Rightarrow> Inr (price, pct))))"
proof (cases "split_ws (strip v)")
  case Nil
  then show ?thesis using assms by (simp add: parse_high_low_def Let_def)
next
  case (Cons p ps)
  note outer = Cons
  show ?thesis
  proof (cases ps)
    case Nil
    then show ?thesis using assms outer
      by (simp add: parse_high_low_def Let_def py_index_def split: sum.splits)
  next
    case (Cons q rest)
    then show ?thesis using assms outer
      by (simp add: parse_high_low_def Let_def py_index_def split: sum.splits)
  qed
qed

lemma parse_high_low_total: "\<exists>p q. parse_high_low rnd v = Inr (p, q)"
proof (cases v)
  case None
  then show ?thesis by (simp add: parse_high_low_def)
next
  case (Some s)
  show ?thesis
  proof (cases "strip s \<in> SENTINELS")
    case True
    then show ?thesis using Some by (simp add: parse_high_low_def)
  next
    case False
    show ?thesis
      unfolding Some parse_high_low_parts [OF False]
      using parse_float_total [of rnd] parse_percent_total [of rnd]
      by (auto split: list.splits sum.splits) (metis Inl_Inr_False)+
  qed
qed

section \<open>Claims about the three parsers together\<close>

text \<open>
  Claim C4.  Each of \<open>parse_float\<close>, \<open>parse_percent\<close> and \<open>parse_high_low\<close> returns a
  value on every input, a string or \<^verbatim>\<open>None\<close>: no exception leaves them.  On \<^verbatim>\<open>None\<close>
  and on a text that trims to a sentinel the result is \<^verbatim>\<open>None\<close> (the pair of them for
  \<open>parse_high_low\<close>); so it is on a text that \<^verbatim>\<open>float()\<close> rejects, and on a text of
  which neither of the first two parts parses.
\<close>

theorem parsers_never_raise:
  "(\<exists>r. parse_float rnd v = Inr r)
   \<and> (\<exists>r. parse_percent rnd v = Inr r)
   \<and> (\<exists>price pct. parse_high_low rnd v = Inr (price, pct))
   \<and> ((case v of None \<Rightarrow> True | Some s \<Rightarrow> strip s \<in> SENTINELS) \<longrightarrow>
        parse_float rnd v = Inr None \<and> parse_percent rnd v = Inr None
        \<and> parse_high_low rnd v = Inr (None, None))
   \<and> (\<forall>s. v = Some s \<and> py_float rnd (remove_commas (strip s)) = Inl ValueError \<longrightarrow>
          parse_float rnd v = Inr None)
   \<and> (\<forall>s. v = Some s
          \<and> py_float rnd (remove_commas
                (if ends_with_percent (strip s) then butlast (strip s) else strip s))
              = Inl ValueError \<longrightarrow>
          parse_percent rnd v = Inr None)
   \<and> (\<forall>s. v = Some s
          \<and> (\<forall>p\<in>set (take 1 (split_ws (strip s))). parse_float rnd (Some p) = Inr None)
          \<and> (\<forall>q\<in>set (take 1 (drop 1 (split_ws (strip s)))).
                parse_percent rnd (Some q) = Inr None) \<longrightarrow>
          parse_high_low rnd v = Inr (None, None))"
proof (intro conjI allI impI)
  show "\<exists>r. parse_float rnd v = Inr r" by (rule parse_float_total)
  show "\<exists>r. parse_percent rnd v = Inr r" by (rule parse_percent_total)
  show "\<exists>price pct. parse_high_low rnd v = Inr (price, pct)" by (rule parse_high_low_total)
next
  assume "case v of None \<Rightarrow> True | Some s \<Rightarrow> strip s \<in> SENTINELS"
  then show "parse_float rnd v = Inr None" "parse_percent rnd v = Inr None"
    "parse_high_low rnd v = Inr (None, None)"
    by (simp_all add: parse_float_def parse_percent_def parse_high_low_def split: option.splits)
next
  fix s
  assume "v = Some s \<and> py_float rnd (remove_commas (strip s)) = Inl ValueError"
  then show "parse_float rnd v = Inr None"
    by (simp add: parse_float_Some)
next
  fix s
  assume "v = Some s
          \<and> py_float rnd (remove_commas
                (if ends_with_percent (strip s) then butlast (strip s) else strip s))
              = Inl ValueError"
  then show "parse_percent rnd v = Inr None"
    by (simp add: parse_percent_Some)
next
  fix s
  assume a: "v = Some s
          \<and> (\<forall>p\<in>set (take 1 (split_ws (strip s))). parse_float rnd (Some p) = Inr None)
          \<and> (\<forall>q\<in>set (take 1 (drop 1 (split_ws (strip s)))).
                parse_percent rnd (Some q) = Inr None)"
  show "parse_high_low rnd v = Inr (None, None)"
  proof (cases "strip s \<in> SENTINELS")
    case True
    then show ?thesis using a by (simp add: parse_high_low_def)
  next
    case False
    from a have v: "v = Some s" by simp
    show ?thesis
      unfolding v parse_high_low_parts [OF False, of rnd]
      using a by (auto split: list.splits)
  qed
qed

theorem parsers_never_raise_witness:
  "parse_float exact (Some ''n/a'') = Inr None
   \<and> parse_percent exact (Some ''12.5%%'') = Inr None
   \<and> parse_high_low exact (Some ''abc def%'') = Inr (None, None)
   \<and> parse_high_low exact (Some '' - '') = Inr (None, None)"
proof -
  note T = parsers_never_raise
  have 1: "py_float exact (remove_commas (strip ''n/a'')) = Inl ValueError"
    by code_simp
  have 2: "py_float exact (remove_commas
             (if ends_with_percent (strip ''12.5%%'') then butlast (strip ''12.5%%'')
              else strip ''12.5%%'')) = Inl ValueError"
    by code_simp
  have 3: "\<forall>p\<in>set (take 1 (split_ws (strip ''abc def%''))). parse_float exact (Some p) = Inr None"
    by code_simp
  have 4: "\<forall>q\<in>set (take 1 (drop 1 (split_ws (strip ''abc def%'')))).
             parse_percent exact (Some q) = Inr None"
    by code_simp
  have 5: "case Some '' - '' of None \<Rightarrow> True | Some s \<Rightarrow> strip s \<in> SENTINELS"
    by code_simp
  from T [of exact "Some ''n/a''"] 1 have a: "parse_float exact (Some ''n/a'') = Inr None"
    by blast
  from T [of exact "Some ''12.5%%''"] 2 have b: "parse_percent exact (Some ''12.5%%'') = Inr None"
    by blast
  from T [of exact "Some ''abc def%''"] 3 4
  have c: "parse_high_low exact (Some ''abc def%'') = Inr (None, None)"
    by blast
  from T [of exact "Some '' - ''"] 5
  have d: "parse_high_low exact (Some '' - '') = Inr (None, None)"
    by blast
  from a b c d show ?thesis by blast
qed

section \<open>Trimmed texts and their parts\<close>

lemma strip_hd: "strip s \<noteq> [] \<Longrightarrow> \<not> is_space (hd (strip s))"
  unfolding strip_def by (rule trim_hd_last)

lemma strip_last: "strip s \<noteq> [] \<Longrightarrow> \<not> is_space (last (strip s))"
  unfolding strip_def by (rule trim_hd_last)

lemma strip_id: "s \<noteq> [] \<Longrightarrow> \<not> is_space (hd s) \<Longrightarrow> \<not> is_space (last s) \<Longrightarrow> strip s = s"
  unfolding strip_def by (rule trim_id)

lemma split_ws_Nil: "split_ws [] = []"
  by (simp add: split_ws.simps)

lemma split_ws_start:
  assumes "s \<noteq> []" "\<not> is_space (hd s)"
  shows "split_ws s = takeWhile (\<lambda>c. \<not> is_space c) s
                        # split_ws (dropWhile (\<lambda>c. \<not> is_space c) s)"
proof -
  have "dropWhile is_space s = s"
    using assms(2) by (simp add: dropWhile_eq_self_iff)
  then show ?thesis
    using assms(1) by (subst split_ws.simps) (simp add: Let_def)
qed

lemma split_ws_space: "is_space c \<Longrightarrow> split_ws (c # s) = split_ws s"
  by (subst split_ws.simps, subst (2) split_ws.simps) simp

lemma split_ws_strip_nonempty: "strip s \<noteq> [] \<Longrightarrow> split_ws (strip s) \<noteq> []"
  using split_ws_start [of "strip s"] strip_hd [of s] by simp

lemma split_ws_empty: "dropWhile is_space s = [] \<Longrightarrow> split_ws s = []"
  by (subst split_ws.simps) (simp add: Let_def)

lemma split_ws_cons:
  "dropWhile is_space s \<noteq> [] \<Longrightarrow>
   split_ws s = takeWhile (\<lambda>c. \<not> is_space c) (dropWhile is_space s)
                  # split_ws (dropWhile (\<lambda>c. \<not> is_space c) (dropWhile is_space s))"
  by (subst split_ws.simps) (simp add: Let_def)

lemma split_ws_parts:
  "p \<in> set (split_ws s) \<Longrightarrow> p \<noteq> [] \<and> (\<forall>c\<in>set p. \<not> is_space c)"
proof (induction s rule: split_ws.induct)
  case (1 s)
  let ?t = "dropWhile is_space s"
  show ?case
  proof (cases "?t = []")
    case True
    then have "split_ws s = []" by (rule split_ws_empty)
    with 1(2) show ?thesis by simp
  next
    case False
    then have eq: "split_ws s = takeWhile (\<lambda>c. \<not> is_space c) ?t
                                  # split_ws (dropWhile (\<lambda>c. \<not> is_space c) ?t)"
      by (rule split_ws_cons)
    have hd: "\<not> is_space (hd ?t)" using False by (rule hd_dropWhile)
    show ?thesis
    proof (cases "p = takeWhile (\<lambda>c. \<not> is_space c) ?t")
      case True
      have "takeWhile (\<lambda>c. \<not> is_space c) ?t \<noteq> []"
        using False hd by (cases ?t) simp_all
      moreover have "\<forall>c\<in>set (takeWhile (\<lambda>c. \<not> is_space c) ?t). \<not> is_space c"
      proof
        fix c
        assume "c \<in> set (takeWhile (\<lambda>c. \<not> is_space c) ?t)"
        then show "\<not> is_space c" by (rule set_takeWhileD [THEN conjunct2])
      qed
      ultimately show ?thesis unfolding True by blast
    next
      case neq: False
      have "p \<in> set (takeWhile (\<lambda>c. \<not> is_space c) ?t
                       # split_ws (dropWhile (\<lambda>c. \<not> is_space c) ?t))"
        using 1(2) unfolding eq .
      then have "p \<in> set (split_ws (dropWhile (\<lambda>c. \<not> is_space c) ?t))"
        using neq by simp
      then show ?thesis by (rule 1(1) [OF refl False])
    qed
  qed
qed

text \<open>Two parts joined by one space split into the two parts again.\<close>

lemma split_ws_two:
  assumes p: "p \<noteq> []" "\<forall>c\<in>set p. \<not> is_space c"
    and q: "q \<noteq> []" "\<forall>c\<in>set q. \<not> is_space c"
  shows "split_ws (p @ CHR '' '' # q) = [p, q]"
proof -
  have sp: "is_space (CHR '' '')" by (simp add: is_space_def)
  have hp: "\<not> is_space (hd (p @ CHR '' '' # q))" using p by (cases p) simp_all
  have tw: "takeWhile (\<lambda>c. \<not> is_space c) (p @ CHR '' '' # q) = p"
    using p(2) sp by (simp add: takeWhile_append2)
  have dw: "dropWhile (\<lambda>c. \<not> is_space c) (p @ CHR '' '' # q) = CHR '' '' # q"
    using p(2) sp by (simp add: dropWhile_append2)
  have 1: "split_ws (p @ CHR '' '' # q) = p # split_ws (CHR '' '' # q)"
    using split_ws_start [OF _ hp] tw dw by simp
  have hq: "\<not> is_space (hd q)" using q by (cases q) simp_all
  have tq: "takeWhile (\<lambda>c. \<not> is_space c) q = q"
    using q(2) by (simp add: takeWhile_eq_all_conv)
  have dq: "dropWhile (\<lambda>c. \<not> is_space c) q = []"
    using q(2) by (simp add: dropWhile_eq_Nil_conv)
  have 2: "split_ws q = [q]"
    using split_ws_start [OF q(1) hq] by (simp only: tq dq split_ws_Nil)
  show ?thesis using 1 2 split_ws_space [OF sp, of q] by simp
qed

section \<open>Evaluating the parsers on a given text\<close>

lemmas parser_eval =
  parse_float_Some parse_percent_Some strip_def is_space_def SENTINELS_def remove_commas_def
  ends_with_percent_def py_float_def float_strip_def is_float_space_def take_sign_def
  lower_def lower_char_def parse_number_def parse_exponent_def is_digit_def nat_of_digits_def
  digit_val_def

lemma sentinel_no_space: "t \<in> SENTINELS \<Longrightarrow> CHR '' '' \<notin> set t"
  by (auto simp: SENTINELS_def)

lemma sentinel_parts: "t \<in> SENTINELS \<Longrightarrow> length (split_ws t) \<le> 1"
proof -
  have "split_ws '''' = []" "split_ws ''-'' = [''-'']" "split_ws ''NaN'' = [''NaN'']"
    "split_ws ''nan'' = [''nan'']"
    by code_simp+
  then show "t \<in> SENTINELS \<Longrightarrow> length (split_ws t) \<le> 1"
    by (auto simp: SENTINELS_def)
qed

section \<open>Claims about parse_high_low\<close>

text \<open>
  Claim C7.  \<open>parse_high_low\<close> gives \<^verbatim>\<open>(None, None)\<close> on \<^verbatim>\<open>None\<close> and on a text that
  trims to a sentinel.  Any other text has a first part after trimming and splitting at
  whitespace: the price is \<open>parse_float\<close> of the first part, the distance is
  \<open>parse_percent\<close> of the second part, and \<^verbatim>\<open>None\<close> when there is no second part.  The
  three examples of the specification hold; the literal \<^verbatim>\<open>-5.10\<close> is the float of sign
  minus and magnitude 5.10.
\<close>

theorem parse_high_low_spec:
  "parse_high_low rnd None = Inr (None, None)
   \<and> (strip s \<in> SENTINELS \<longrightarrow> parse_high_low rnd (Some s) = Inr (None, None))
   \<and> (strip s \<notin> SENTINELS \<longrightarrow>
        (\<exists>p rest price.
            split_ws (strip s) = p # rest \<and> parse_float rnd (Some p) = Inr price
            \<and> (rest = [] \<longrightarrow> parse_high_low rnd (Some s) = Inr (price, None))
            \<and> (\<forall>q rest'. rest = q # rest' \<longrightarrow>
                  (\<exists>pct. parse_percent rnd (Some q) = Inr pct
                         \<and> parse_high_low rnd (Some s) = Inr (price, pct)))))
   \<and> parse_high_low rnd (Some ''150.25 -5.10%'')
       = Inr (Some (rnd False 150.25), Some (rnd True 5.10))
   \<and> parse_high_low rnd (Some ''150.25'') = Inr (Some (rnd False 150.25), None)
   \<and> parse_high_low rnd (Some ''-'') = Inr (None, None)"
proof (intro conjI impI)
  show "parse_high_low rnd None = Inr (None, None)"
    by (simp add: parse_high_low_def)
  show "parse_high_low rnd (Some s) = Inr (None, None)" if "strip s \<in> SENTINELS"
    using that by (simp add: parse_high_low_def)
  show "\<exists>p rest price.
            split_ws (strip s) = p # rest \<and> parse_float rnd (Some p) = Inr price
            \<and> (rest = [] \<longrightarrow> parse_high_low rnd (Some s) = Inr (price, None))
            \<and> (\<forall>q rest'. rest = q # rest' \<longrightarrow>
                  (\<exists>pct. parse_percent rnd (Some q) = Inr pct
                         \<and> parse_high_low rnd (Some s) = Inr (price, pct)))"
    if ns: "strip s \<notin> SENTINELS"
  proof -
    from ns have "strip s \<noteq> []" by (auto simp: SENTINELS_def)
    then obtain p rest where parts: "split_ws (strip s) = p # rest"
      using split_ws_strip_nonempty [of s] by (cases "split_ws (strip s)") auto
    obtain price where price: "parse_float rnd (Some p) = Inr price"
      using parse_float_total by blast
    have 1: "parse_high_low rnd (Some s) = Inr (price, None)" if "rest = []"
      using that parts price by (simp add: parse_high_low_parts [OF ns])
    have 2: "\<exists>pct. parse_percent rnd (Some q) = Inr pct
                   \<and> parse_high_low rnd (Some s) = Inr (price, pct)"
      if "rest = q # rest'" for q rest'
    proof -
      obtain pct where pct: "parse_percent rnd (Some q) = Inr pct"
        using parse_percent_total by blast
      then show ?thesis
        using that parts price by (simp add: parse_high_low_parts [OF ns])
    qed
    from parts price 1 2 show ?thesis by blast
  qed
  have f: "parse_float rnd (Some ''150.25'') = Inr (Some (rnd False 150.25))"
    by (simp add: parser_eval)
  have p: "parse_percent rnd (Some ''-5.10%'') = Inr (Some (rnd True 5.10))"
    by (simp add: parser_eval)
  have s2: "strip ''150.25 -5.10%'' = ''150.25 -5.10%''" by code_simp
  have n2: "strip ''150.25 -5.10%'' \<notin> SENTINELS" unfolding s2 by (simp add: SENTINELS_def)
  have w2: "split_ws ''150.25 -5.10%'' = [''150.25'', ''-5.10%'']" by code_simp
  show "parse_high_low rnd (Some ''150.25 -5.10%'')
       = Inr (Some (rnd False 150.25), Some (rnd True 5.10))"
    unfolding parse_high_low_parts [OF n2] s2 w2 by (simp add: f p)
  have s1: "strip ''150.25'' = ''150.25''" by code_simp
  have n1: "strip ''150.25'' \<notin> SENTINELS" unfolding s1 by (simp add: SENTINELS_def)
  have w1: "split_ws ''150.25'' = [''150.25'']" by code_simp
  show "parse_high_low rnd (Some ''150.25'') = Inr (Some (rnd False 150.25), None)"
    unfolding parse_high_low_parts [OF n1] s1 w1 by (simp add: f)
  have "strip ''-'' \<in> SENTINELS" by code_simp
  then show "parse_high_low rnd (Some ''-'') = Inr (None, None)"
    by (simp add: parse_high_low_def)
qed

theorem parse_high_low_spec_witness:
  "parse_high_low exact (Some '' 99.5   1,250% '')
     = Inr (Some (exact False 99.5), Some (exact False 1250))
   \<and> parse_high_low exact (Some '' NaN '') = Inr (None, None)"
proof -
  have ns: "strip '' 99.5   1,250% '' \<notin> SENTINELS" by code_simp
  have w: "split_ws (strip '' 99.5   1,250% '') = [''99.5'', ''1,250%'']" by code_simp
  have f: "parse_float exact (Some ''99.5'') = Inr (Some (exact False 99.5))"
    by (simp add: parser_eval)
  have p: "parse_percent exact (Some ''1,250%'') = Inr (Some (exact False 1250))"
    by (simp add: parser_eval)
  from parse_high_low_spec [of exact "'' 99.5   1,250% ''"] ns
  obtain a rest price where
    1: "split_ws (strip '' 99.5   1,250% '') = a # rest"
    and 2: "parse_float exact (Some a) = Inr price"
    and 3: "\<forall>q rest'. rest = q # rest' \<longrightarrow>
              (\<exists>pct. parse_percent exact (Some q) = Inr pct
                 \<and> parse_high_low exact (Some '' 99.5   1,250% '') = Inr (price, pct))"
    by blast
  from 1 w have a: "a = ''99.5''" and rest: "rest = [''1,250%'']" by simp_all
  from 2 a f have price: "price = Some (exact False 99.5)" by simp
  from 3 rest obtain pct where "parse_percent exact (Some ''1,250%'') = Inr pct"
    and r: "parse_high_low exact (Some '' 99.5   1,250% '') = Inr (price, pct)"
    by blast
  with p have "pct = Some (exact False 1250)" by simp
  with r price have A: "parse_high_low exact (Some '' 99.5   1,250% '')
     = Inr (Some (exact False 99.5), Some (exact False 1250))" by simp
  have "strip '' NaN '' \<in> SENTINELS" by code_simp
  with parse_high_low_spec [of exact "'' NaN ''"]
  have B: "parse_high_low exact (Some '' NaN '') = Inr (None, None)" by blast
  from A B show ?thesis by blast
qed

text \<open>
  Claim C10.  When the trimmed text has three parts or more, \<open>parse_high_low\<close> returns
  what it returns on the first two parts alone, joined by a space: the price and the
  distance parsed from them.  The parts after the second are not looked at, and no
  exception arises from them.
\<close>

theorem parse_high_low_ignores_extra_parts:
  assumes "split_ws (strip s) = p # q # r # rest"
  shows "parse_high_low rnd (Some s) = parse_high_low rnd (Some (p @ '' '' @ q))
         \<and> (\<exists>price pct. parse_float rnd (Some p) = Inr price
               \<and> parse_percent rnd (Some q) = Inr pct
               \<and> parse_high_low rnd (Some s) = Inr (price, pct))"
proof -
  have ns: "strip s \<notin> SENTINELS"
    using sentinel_parts [of "strip s"] assms by auto
  obtain price where price: "parse_float rnd (Some p) = Inr price"
    using parse_float_total by blast
  obtain pct where pct: "parse_percent rnd (Some q) = Inr pct"
    using parse_percent_total by blast
  have 1: "parse_high_low rnd (Some s) = Inr (price, pct)"
    using assms price pct by (simp add: parse_high_low_parts [OF ns])
  have "p \<in> set (split_ws (strip s))" "q \<in> set (split_ws (strip s))"
    using assms by simp_all
  then have tp: "p \<noteq> []" "\<forall>c\<in>set p. \<not> is_space c" and tq: "q \<noteq> []" "\<forall>c\<in>set q. \<not> is_space c"
    using split_ws_parts by blast+
  let ?t = "p @ '' '' @ q"
  have "hd ?t = hd p" "last ?t = last q" using tp(1) tq(1) by simp_all
  moreover have "hd p \<in> set p" "last q \<in> set q" using tp(1) tq(1) by simp_all
  ultimately have "\<not> is_space (hd ?t)" "\<not> is_space (last ?t)"
    using tp(2) tq(2) by metis+
  then have st: "strip ?t = ?t" by (intro strip_id) simp_all
  have ns': "strip ?t \<notin> SENTINELS"
    unfolding st using sentinel_no_space [of ?t] by auto
  have w: "split_ws ?t = [p, q]"
    using split_ws_two [OF tp tq] by simp
  have 2: "parse_high_low rnd (Some ?t) = Inr (price, pct)"
    unfolding parse_high_low_parts [OF ns'] st w using price pct by simp
  from 1 2 price pct show ?thesis by simp
qed

theorem parse_high_low_ignores_extra_parts_witness:
  "parse_high_low exact (Some ''150.25 -5.10% extra junk'')
     = Inr (Some (exact False 150.25), Some (exact True 5.10))
   \<and> parse_high_low exact (Some ''150.25 -5.10%'')
     = Inr (Some (exact False 150.25), Some (exact True 5.10))"
proof -
  have w: "split_ws (strip ''150.25 -5.10% extra junk'')
             = ''150.25'' # ''-5.10%'' # ''extra'' # [''junk'']"
    by code_simp
  have f: "parse_float exact (Some ''150.25'') = Inr (Some (exact False 150.25))"
    by (simp add: parser_eval)
  have p: "parse_percent exact (Some ''-5.10%'') = Inr (Some (exact True 5.10))"
    by (simp add: parser_eval)
  from parse_high_low_ignores_extra_parts [OF w, of exact] f p
  show ?thesis by auto
qed

section \<open>The characters of a text that float() accepts\<close>

lemma take_sign_set:
  "take_sign x = (neg, body) \<Longrightarrow> c \<in> set x \<Longrightarrow> c = CHR ''+'' \<or> c = CHR ''-'' \<or> c \<in> set body"
  by (auto simp: take_sign_def split: list.splits if_splits)

lemma parse_exponent_chars:
  assumes "parse_exponent r = Some f" "c \<in> set r"
  shows "is_digit c \<or> c \<in> set ''eE+-''"
proof (cases r)
  case Nil
  with assms show ?thesis by simp
next
  case (Cons e cs)
  obtain neg ds where ts: "take_sign cs = (neg, ds)" by (cases "take_sign cs")
  from assms(1) Cons ts have e: "e = CHR ''e'' \<or> e = CHR ''E''" and ds: "list_all is_digit ds"
    by (auto simp: parse_exponent_def split: if_splits)
  show ?thesis
  proof (cases "c = e")
    case True
    with e show ?thesis by auto
  next
    case False
    with assms(2) Cons have "c \<in> set cs" by simp
    from take_sign_set [OF ts this] ds show ?thesis
      by (auto simp: list_all_iff)
  qed
qed

lemma parse_number_chars:
  assumes "parse_number b = Some q" "c \<in> set b"
  shows "is_digit c \<or> c \<in> set ''.eE+-''"
proof -
  let ?r1 = "dropWhile is_digit b"
  have b: "b = takeWhile is_digit b @ ?r1" by simp
  have "c \<in> set (takeWhile is_digit b) \<or> c \<in> set ?r1"
    using assms(2) by (subst (asm) b) (simp only: set_append Un_iff)
  then show ?thesis
  proof
    assume "c \<in> set (takeWhile is_digit b)"
    then show ?thesis by (auto dest: set_takeWhileD)
  next
    assume c: "c \<in> set ?r1"
    show ?thesis
    proof (cases ?r1)
      case Nil
      with c show ?thesis by simp
    next
      case (Cons d cs)
      show ?thesis
      proof (cases "d = CHR ''.''")
        case True
        let ?r2 = "dropWhile is_digit cs"
        from assms(1) Cons True obtain f where f: "parse_exponent ?r2 = Some f"
          by (auto simp: parse_number_def Let_def split: if_splits option.splits)
        have cs: "cs = takeWhile is_digit cs @ ?r2" by simp
        from c Cons have "c = d \<or> c \<in> set cs" by simp
        then have "c = d \<or> c \<in> set (takeWhile is_digit cs) \<or> c \<in> set ?r2"
          by (subst (asm) cs) (simp only: set_append Un_iff)
        then show ?thesis
          using True parse_exponent_chars [OF f] by (auto dest: set_takeWhileD)
      next
        case False
        from assms(1) Cons False obtain f where f: "parse_exponent ?r1 = Some f"
          by (auto simp: parse_number_def Let_def split: if_splits option.splits)
        from parse_exponent_chars [OF f c] show ?thesis by auto
      qed
    qed
  qed
qed

lemma lower_char_letter:
  "lower_char c \<in> set ''infinityna'' \<Longrightarrow> c \<in> set ''infinitynaINFTYA''"
  by (auto simp: lower_char_def split: if_splits)

lemma lower_chars:
  assumes "lower b = ''inf'' \<or> lower b = ''infinity'' \<or> lower b = ''nan''" "c \<in> set b"
  shows "c \<in> set ''infinitynaINFTYA''"
proof -
  have "lower_char c \<in> set (lower b)" using assms(2) by (simp add: lower_def)
  then have "lower_char c \<in> set ''infinityna''" using assms(1) by auto
  then show ?thesis by (rule lower_char_letter)
qed

text \<open>What an accepted text is made of, once the surrounding whitespace is off.\<close>

lemma py_float_body:
  assumes "py_float rnd u = Inr f"
    and ts: "take_sign (filter (\<lambda>c. c \<noteq> CHR ''_'') (float_strip u)) = (neg, body)"
  shows "lower body = ''inf'' \<or> lower body = ''infinity'' \<or> lower body = ''nan''
         \<or> (\<exists>q. parse_number body = Some q)"
proof (rule ccontr)
  assume n: "\<not> ?thesis"
  then have "parse_number body = None" by auto
  with n ts have "py_float rnd u = Inl ValueError"
    unfolding py_float_def Let_def by simp
  with assms(1) show False by simp
qed

lemma py_float_chars:
  assumes "py_float rnd u = Inr f" "c \<in> set (float_strip u)"
  shows "is_digit c \<or> c \<in> set ''_+-.eEinfinitynaINFTYA''"
proof (cases "c = CHR ''_''")
  case True
  then show ?thesis by simp
next
  case False
  let ?t = "float_strip u"
  obtain neg body where ts: "take_sign (filter (\<lambda>c. c \<noteq> CHR ''_'') ?t) = (neg, body)"
    by (cases "take_sign (filter (\<lambda>c. c \<noteq> CHR ''_'') ?t)")
  have "c \<in> set (filter (\<lambda>c. c \<noteq> CHR ''_'') ?t)" using assms(2) False by simp
  from take_sign_set [OF ts this] have c: "c = CHR ''+'' \<or> c = CHR ''-'' \<or> c \<in> set body" .
  have b: "is_digit c \<or> c \<in> set ''.eE+-'' \<or> c \<in> set ''infinitynaINFTYA''"
    if cb: "c \<in> set body"
  proof (cases "lower body = ''inf'' \<or> lower body = ''infinity'' \<or> lower body = ''nan''")
    case True
    from lower_chars [OF True cb] show ?thesis by blast
  next
    case False
    with py_float_body [OF assms(1) ts] obtain q where "parse_number body = Some q"
      by blast
    from parse_number_chars [OF this cb] show ?thesis by blast
  qed
  have sub1: "set ''.eE+-'' \<subseteq> set ''_+-.eEinfinitynaINFTYA''" by simp
  have sub2: "set ''infinitynaINFTYA'' \<subseteq> set ''_+-.eEinfinitynaINFTYA''" by simp
  have pm: "CHR ''+'' \<in> set ''_+-.eEinfinitynaINFTYA''" "CHR ''-'' \<in> set ''_+-.eEinfinitynaINFTYA''"
    by simp_all
  from c b sub1 sub2 pm show ?thesis by blast
qed

section \<open>Texts that float() accepts and the parsers\<close>

lemma float_space_is_space: "is_float_space c \<Longrightarrow> is_space c"
  by (auto simp: is_float_space_def is_space_def)

lemma float_char_plain:
  assumes "is_digit c \<or> c \<in> set ''_+-.eEinfinitynaINFTYA''"
  shows "\<not> is_space c" "c \<noteq> CHR '',''" "c \<noteq> CHR ''%''"
  using assms by (auto simp: is_digit_def is_space_def)

lemma py_float_nonempty: "py_float rnd u = Inr f \<Longrightarrow> float_strip u \<noteq> []"
proof
  assume a: "py_float rnd u = Inr f" and e: "float_strip u = []"
  have "py_float rnd u = Inl ValueError"
    unfolding py_float_def Let_def e
    by (simp add: take_sign_def lower_def parse_number_def)
  with a show False by simp
qed

lemma float_strip_idem: "float_strip (float_strip u) = float_strip u"
proof (cases "float_strip u = []")
  case True
  have "float_strip [] = []" by (simp add: float_strip_def)
  with True show ?thesis by simp
next
  case False
  then have "\<not> is_float_space (hd (float_strip u))" "\<not> is_float_space (last (float_strip u))"
    unfolding float_strip_def by (rule trim_hd_last)+
  with False show ?thesis
    by (subst (1) float_strip_def) (rule trim_id)
qed

lemma py_float_strip: "py_float rnd (float_strip u) = py_float rnd u"
  by (simp add: py_float_def float_strip_idem)

text \<open>On a text that float() accepts, \<open>strip\<close> removes what float() itself removes, and
  there is no comma and no percent sign in it.\<close>

lemma py_float_accepts:
  assumes "py_float rnd u = Inr f"
  shows "strip u = float_strip u"
    and "remove_commas (float_strip u) = float_strip u"
    and "CHR ''%'' \<notin> set u" and "CHR '','' \<notin> set u"
proof -
  have plain: "\<not> is_space c \<and> c \<noteq> CHR '','' \<and> c \<noteq> CHR ''%''" if "c \<in> set (float_strip u)" for c
    using float_char_plain [OF py_float_chars [OF assms that]] by simp
  then have "\<forall>c\<in>set (rev (dropWhile is_float_space (rev (dropWhile is_float_space u)))).
               \<not> is_space c"
    unfolding float_strip_def by blast
  from trim_weaken [of is_float_space is_space u, OF float_space_is_space this]
  show "strip u = float_strip u"
    by (simp only: strip_def float_strip_def)
  show "remove_commas (float_strip u) = float_strip u"
    unfolding remove_commas_def using plain by (simp add: filter_id_conv)
  obtain a b where u: "u = a @ float_strip u @ b"
    and a: "\<forall>c\<in>set a. is_float_space c" and b: "\<forall>c\<in>set b. is_float_space c"
    using trim_decompose [of u is_float_space] unfolding float_strip_def by blast
  have sp: "\<not> is_float_space (CHR ''%'')" "\<not> is_float_space (CHR '','')"
    by (simp_all add: is_float_space_def)
  have "set u = set a \<union> set (float_strip u) \<union> set b"
    by (subst u) auto
  then show "CHR ''%'' \<notin> set u" "CHR '','' \<notin> set u"
    using a b sp plain by blast+
qed

lemma py_float_sentinel:
  "t \<in> SENTINELS \<Longrightarrow> py_float rnd t = Inl ValueError \<or> py_float rnd t = Inr NaN"
  by (auto simp: parser_eval)

text \<open>\<open>parse_float\<close> agrees with float() wherever float() gives a float other than NaN.\<close>

lemma parse_float_extends_float:
  assumes "py_float rnd u = Inr f" "f \<noteq> NaN"
  shows "parse_float rnd (Some u) = Inr (Some f)"
proof -
  note acc = py_float_accepts [OF assms(1)]
  have pf: "py_float rnd (float_strip u) = Inr f"
    using assms(1) by (simp add: py_float_strip)
  have "float_strip u \<notin> SENTINELS"
    using py_float_sentinel [of "float_strip u" rnd] pf assms(2) by auto
  then show ?thesis
    by (simp add: parse_float_Some acc(1) acc(2) pf)
qed

section \<open>The spellings of nan\<close>

lemma lower_char_n: "lower_char c = CHR ''n'' \<Longrightarrow> c = CHR ''n'' \<or> c = CHR ''N''"
  by (auto simp: lower_char_def split: if_splits)

lemma lower_char_a: "lower_char c = CHR ''a'' \<Longrightarrow> c = CHR ''a'' \<or> c = CHR ''A''"
  by (auto simp: lower_char_def split: if_splits)

lemma nan_casings:
  assumes "lower t = ''nan''"
  shows "t \<in> set [''nan'', ''naN'', ''nAn'', ''nAN'', ''Nan'', ''NaN'', ''NAn'', ''NAN'']"
proof -
  from assms obtain a b c where t: "t = [a, b, c]"
    and l: "lower_char a = CHR ''n''" "lower_char b = CHR ''a''" "lower_char c = CHR ''n''"
    by (auto simp: lower_def map_eq_Cons_conv)
  from lower_char_n [OF l(1)] lower_char_a [OF l(2)] lower_char_n [OF l(3)] t
  show ?thesis by auto
qed

lemma parse_float_nan_casing:
  assumes "t \<in> set [''nan'', ''naN'', ''nAn'', ''nAN'', ''Nan'', ''NaN'', ''NAn'', ''NAN'']"
  shows "py_float rnd (remove_commas t) = Inr NaN"
  using assms by (auto simp: parser_eval)

section \<open>Claims about parse_float\<close>

text \<open>
  Claim C5, as the specification states it, asks that every casing of \<^verbatim>\<open>nan\<close> be turned
  into \<^verbatim>\<open>None\<close>.  The text \<^verbatim>\<open>NAN\<close> is such a casing, and \<open>parse_float\<close> returns the
  float NaN on it: it is not in the set of sentinels, and \<^verbatim>\<open>float("NAN")\<close> is NaN.
\<close>

theorem parse_float_nan_case_counterexample:
  "lower (strip ''NAN'') = ''nan'' \<and> parse_float exact (Some ''NAN'') = Inr (Some NaN)"
  by (simp add: parser_eval)

text \<open>
  Claim C5, amended.  \<open>parse_float\<close> trims the text; it returns \<^verbatim>\<open>None\<close> on \<^verbatim>\<open>None\<close> and
  on exactly the four sentinels \<^verbatim>\<open>""\<close>, \<^verbatim>\<open>"-"\<close>, \<^verbatim>\<open>"NaN"\<close> and \<^verbatim>\<open>"nan"\<close>; on any other
  text it removes the commas and returns what \<^verbatim>\<open>float()\<close> gives, or \<^verbatim>\<open>None\<close> when
  \<^verbatim>\<open>float()\<close> rejects the text.  Another casing of \<^verbatim>\<open>nan\<close> is therefore parsed to the
  float NaN.  \<^verbatim>\<open>parse_float("1,234.5")\<close> is 1234.5.
\<close>

theorem parse_float_spec:
  "parse_float rnd None = Inr None
   \<and> (strip s \<in> {'''', ''-'', ''NaN'', ''nan''} \<longrightarrow> parse_float rnd (Some s) = Inr None)
   \<and> (strip s \<notin> {'''', ''-'', ''NaN'', ''nan''} \<longrightarrow>
        parse_float rnd (Some s)
          = Inr (case py_float rnd (filter (\<lambda>c. c \<noteq> CHR '','') (strip s)) of
                   Inl e \<Rightarrow> None | Inr f \<Rightarrow> Some f))
   \<and> (lower (strip s) = ''nan'' \<and> strip s \<noteq> ''NaN'' \<and> strip s \<noteq> ''nan'' \<longrightarrow>
        parse_float rnd (Some s) = Inr (Some NaN))
   \<and> parse_float rnd (Some ''1,234.5'') = Inr (Some (rnd False 1234.5))"
proof (intro conjI impI)
  show "parse_float rnd None = Inr None" by (simp add: parse_float_def)
  show "parse_float rnd (Some s) = Inr None" if "strip s \<in> {'''', ''-'', ''NaN'', ''nan''}"
    using that by (simp add: parse_float_Some SENTINELS_def)
  show "parse_float rnd (Some s)
          = Inr (case py_float rnd (filter (\<lambda>c. c \<noteq> CHR '','') (strip s)) of
                   Inl e \<Rightarrow> None | Inr f \<Rightarrow> Some f)"
    if "strip s \<notin> {'''', ''-'', ''NaN'', ''nan''}"
    using that by (simp add: parse_float_Some SENTINELS_def remove_commas_def)
  show "parse_float rnd (Some s) = Inr (Some NaN)"
    if a: "lower (strip s) = ''nan'' \<and> strip s \<noteq> ''NaN'' \<and> strip s \<noteq> ''nan''"
  proof -
    from a have c: "strip s \<in> set [''nan'', ''naN'', ''nAn'', ''nAN'', ''Nan'', ''NaN'', ''NAn'', ''NAN'']"
      by (intro nan_casings) simp
    then have "strip s \<notin> SENTINELS" using a by (auto simp: SENTINELS_def)
    then show ?thesis
      by (simp add: parse_float_Some parse_float_nan_casing [OF c])
  qed
  show "parse_float rnd (Some ''1,234.5'') = Inr (Some (rnd False 1234.5))"
    by (simp add: parser_eval)
qed

theorem parse_float_spec_witness:
  "parse_float exact (Some ''  -  '') = Inr None
   \<and> parse_float exact (Some '' 2,500.75 '') = Inr (Some (exact False 2500.75))
   \<and> parse_float exact (Some ''12abc'') = Inr None
   \<and> parse_float exact (Some ''Nan'') = Inr (Some NaN)"
proof -
  note T = parse_float_spec
  have 1: "strip ''  -  '' \<in> {'''', ''-'', ''NaN'', ''nan''}" by code_simp
  have 2: "strip '' 2,500.75 '' \<notin> {'''', ''-'', ''NaN'', ''nan''}" by code_simp
  have f2: "py_float exact (filter (\<lambda>c. c \<noteq> CHR '','') (strip '' 2,500.75 ''))
              = Inr (exact False 2500.75)"
    by (simp add: parser_eval)
  have 3: "strip ''12abc'' \<notin> {'''', ''-'', ''NaN'', ''nan''}" by code_simp
  have f3: "py_float exact (filter (\<lambda>c. c \<noteq> CHR '','') (strip ''12abc'')) = Inl ValueError"
    by code_simp
  have 4: "lower (strip ''Nan'') = ''nan'' \<and> strip ''Nan'' \<noteq> ''NaN'' \<and> strip ''Nan'' \<noteq> ''nan''"
    by code_simp
  from T [of exact "''  -  ''"] 1 have a: "parse_float exact (Some ''  -  '') = Inr None"
    by blast
  from T [of exact "'' 2,500.75 ''"] 2
  have "parse_float exact (Some '' 2,500.75 '')
          = Inr (case py_float exact (filter (\<lambda>c. c \<noteq> CHR '','') (strip '' 2,500.75 '')) of
                   Inl e \<Rightarrow> None | Inr f \<Rightarrow> Some f)"
    by blast
  then have b: "parse_float exact (Some '' 2,500.75 '') = Inr (Some (exact False 2500.75))"
    unfolding f2 by simp
  from T [of exact "''12abc''"] 3
  have "parse_float exact (Some ''12abc'')
          = Inr (case py_float exact (filter (\<lambda>c. c \<noteq> CHR '','') (strip ''12abc'')) of
                   Inl e \<Rightarrow> None | Inr f \<Rightarrow> Some f)"
    by blast
  then have c: "parse_float exact (Some ''12abc'') = Inr None"
    unfolding f3 by simp
  from T [of exact "''Nan''"] 4 have d: "parse_float exact (Some ''Nan'') = Inr (Some NaN)"
    by blast
  from a b c d show ?thesis by blast
qed

text \<open>
  Claim C8, as the specification states it, fails where \<open>parse_float\<close> returns NaN:
  \<^verbatim>\<open>parse_float("NAN")\<close> is the float NaN, \<^verbatim>\<open>str\<close> of it is \<^verbatim>\<open>"nan"\<close>, a sentinel, and
  \<open>parse_float\<close> of that is \<^verbatim>\<open>None\<close>.
\<close>

theorem parse_float_idempotent_counterexample:
  "parse_float exact (Some ''NAN'') = Inr (Some NaN)
   \<and> (\<forall>digits. py_str digits (NaN :: (bool \<times> rat) pyfloat) = ''nan'')
   \<and> (\<forall>digits. parse_float exact (Some (py_str digits NaN)) = Inr None)"
  by (simp add: parser_eval)

text \<open>
  Claim C8, amended.  Let \<open>parse_float\<close> return a float \<open>f\<close> other than NaN on \<open>x\<close>, and
  let \<^verbatim>\<open>str(f)\<close> be a text that \<^verbatim>\<open>float()\<close> reads back as \<open>f\<close>, which Python promises of
  the digits it prints for a finite float.  Then \<open>parse_float\<close> of \<^verbatim>\<open>str(f)\<close> is \<open>f\<close>
  again: trimming, the sentinels and the removal of commas do not touch such a text.
\<close>

theorem parse_float_idempotent:
  assumes "parse_float rnd (Some x) = Inr (Some f)"
    and "f \<noteq> NaN"
    and "\<forall>d. f = Finite d \<longrightarrow> py_float rnd (digits d) = Inr f"
  shows "parse_float rnd (Some (py_str digits f)) = parse_float rnd (Some x)"
proof (cases f)
  case (Finite d)
  with assms(3) have "py_float rnd (digits d) = Inr f" by simp
  from parse_float_extends_float [OF this assms(2)] show ?thesis
    using Finite assms(1) by simp
next
  case (Inf neg)
  have "parse_float rnd (Some ''inf'') = Inr (Some (Inf False))"
    "parse_float rnd (Some ''-inf'') = Inr (Some (Inf True))"
    by (simp_all add: parser_eval)
  then show ?thesis using Inf assms(1) by simp
next
  case NaN
  with assms(2) show ?thesis by simp
qed

theorem parse_float_idempotent_witness:
  "parse_float exact (Some ''1234.5'') = parse_float exact (Some ''1,234.5'')
   \<and> parse_float exact (Some ''-inf'') = parse_float exact (Some '' -Infinity'')"
proof -
  have 1: "parse_float exact (Some ''1,234.5'') = Inr (Some (Finite (False, 2469 / 2)))"
    by (simp add: parser_eval exact_def)
  have 2: "Finite (False, 2469 / 2 :: rat) \<noteq> NaN" by simp
  have 3: "\<forall>d. Finite (False, 2469 / 2) = Finite d \<longrightarrow>
             py_float exact ((\<lambda>_. ''1234.5'') d) = Inr (Finite (False, 2469 / 2))"
    by (simp add: parser_eval exact_def)
  from parse_float_idempotent [OF 1 2 3]
  have a: "parse_float exact (Some ''1234.5'') = parse_float exact (Some ''1,234.5'')"
    by simp
  have 4: "parse_float exact (Some '' -Infinity'') = Inr (Some (Inf True))"
    by (simp add: parser_eval)
  have 5: "(Inf True :: (bool \<times> rat) pyfloat) \<noteq> NaN" by simp
  have 6: "\<forall>d. (Inf True :: (bool \<times> rat) pyfloat) = Finite d \<longrightarrow>
             py_float exact ((\<lambda>_. []) d) = Inr (Inf True)"
    by simp
  from parse_float_idempotent [OF 4 5 6]
  have b: "parse_float exact (Some ''-inf'') = parse_float exact (Some '' -Infinity'')"
    by simp
  from a b show ?thesis by blast
qed

section \<open>Claims about parse_percent\<close>

lemma strip_percent:
  assumes "strip g = g"
  shows "strip (g @ ''%'') = g @ ''%''"
proof (cases "g = []")
  case True
  then show ?thesis by (simp add: strip_def is_space_def)
next
  case False
  have "\<not> is_space (hd g)" using strip_hd [of g] assms False by simp
  then have "\<not> is_space (hd (g @ ''%''))" using False by simp
  moreover have "\<not> is_space (last (g @ ''%''))" by (simp add: is_space_def)
  ultimately show ?thesis by (intro strip_id) simp_all
qed

lemma percent_not_sentinel: "t @ ''%'' \<notin> SENTINELS"
  by (auto simp: SENTINELS_def append_eq_Cons_conv)

lemma parse_percent_sign:
  assumes "strip s = t @ ''%''"
  shows "parse_percent rnd (Some s)
           = Inr (case py_float rnd (remove_commas t) of Inl e \<Rightarrow> None | Inr f \<Rightarrow> Some f)"
proof -
  have "strip s \<notin> SENTINELS" unfolding assms by (rule percent_not_sentinel)
  moreover have "ends_with_percent (strip s)" "butlast (strip s) = t"
    unfolding assms by (simp_all add: ends_with_percent_def)
  ultimately show ?thesis by (simp add: parse_percent_Some)
qed

lemma py_float_percent: "CHR ''%'' \<in> set u \<Longrightarrow> py_float rnd u = Inl ValueError"
proof (cases "py_float rnd u")
  case (Inl e)
  then show ?thesis using py_float_error [OF Inl] by simp
next
  case (Inr f)
  assume "CHR ''%'' \<in> set u"
  with py_float_accepts(3) [OF Inr] show ?thesis by simp
qed

text \<open>
  Claim C6.  \<open>parse_percent\<close> returns \<^verbatim>\<open>None\<close> on \<^verbatim>\<open>None\<close> and on the texts that trim to
  a sentinel, the same texts as \<open>parse_float\<close>.  On every other text the result is what
  \<^verbatim>\<open>float()\<close> gives, not scaled, or \<^verbatim>\<open>None\<close> when \<^verbatim>\<open>float()\<close> rejects it, on the trimmed
  text without its commas and without one percent sign at its end.  So when the trimmed
  text ends with a percent sign, that one sign is taken off; a second percent sign before
  it stays, and the result is \<^verbatim>\<open>None\<close>; and a text with no percent sign at its end is
  parsed as it is.  The four examples of the specification hold; the literal
  \<^verbatim>\<open>-3.2\<close> is the float of sign minus and magnitude 3.2.
\<close>

theorem parse_percent_spec:
  "parse_percent rnd None = Inr None
   \<and> (strip s \<in> SENTINELS \<longrightarrow>
        parse_percent rnd (Some s) = Inr None \<and> parse_float rnd (Some s) = Inr None)
   \<and> (strip s \<notin> SENTINELS \<longrightarrow>
        parse_percent rnd (Some s)
          = Inr (case py_float rnd (remove_commas
                        (if ends_with_percent (strip s) then butlast (strip s) else strip s)) of
                   Inl e \<Rightarrow> None | Inr f \<Rightarrow> Some f))
   \<and> (\<forall>t. strip s = t @ ''%'' \<longrightarrow>
          parse_percent rnd (Some s)
            = Inr (case py_float rnd (remove_commas t) of Inl e \<Rightarrow> None | Inr f \<Rightarrow> Some f))
   \<and> (\<forall>t. strip s = t @ ''%%'' \<longrightarrow> parse_percent rnd (Some s) = Inr None)
   \<and> (strip s \<notin> SENTINELS \<and> \<not> ends_with_percent (strip s) \<longrightarrow>
        parse_percent rnd (Some s)
          = Inr (case py_float rnd (remove_commas (strip s)) of
                   Inl e \<Rightarrow> None | Inr f \<Rightarrow> Some f))
   \<and> parse_percent rnd (Some ''12.5%'') = Inr (Some (rnd False 12.5))
   \<and> parse_percent rnd (Some ''-3.2%'') = Inr (Some (rnd True 3.2))
   \<and> parse_percent rnd (Some ''-'') = Inr None
   \<and> parse_percent rnd (Some '''') = Inr None"
proof (intro conjI impI allI)
  show "parse_percent rnd None = Inr None" by (simp add: parse_percent_def)
  show "parse_percent rnd (Some s) = Inr None" "parse_float rnd (Some s) = Inr None"
    if "strip s \<in> SENTINELS"
    using that by (simp_all add: parse_percent_Some parse_float_Some)
  show "parse_percent rnd (Some s)
          = Inr (case py_float rnd (remove_commas
                        (if ends_with_percent (strip s) then butlast (strip s) else strip s)) of
                   Inl e \<Rightarrow> None | Inr f \<Rightarrow> Some f)"
    if "strip s \<notin> SENTINELS"
    using that by (simp add: parse_percent_Some)
  show "parse_percent rnd (Some s)
          = Inr (case py_float rnd (remove_commas (strip s)) of
                   Inl e \<Rightarrow> None | Inr f \<Rightarrow> Some f)"
    if "strip s \<notin> SENTINELS \<and> \<not> ends_with_percent (strip s)"
    using that by (simp add: parse_percent_Some)
  show "parse_percent rnd (Some s)
            = Inr (case py_float rnd (remove_commas t) of Inl e \<Rightarrow> None | Inr f \<Rightarrow> Some f)"
    if "strip s = t @ ''%''" for t
    using that by (rule parse_percent_sign)
  show "parse_percent rnd (Some s) = Inr None" if a: "strip s = t @ ''%%''" for t
  proof -
    from a have "strip s = (t @ ''%'') @ ''%''" by simp
    from parse_percent_sign [OF this, of rnd]
    have "parse_percent rnd (Some s)
            = Inr (case py_float rnd (remove_commas (t @ ''%'')) of
                     Inl e \<Rightarrow> None | Inr f \<Rightarrow> Some f)" .
    moreover have "py_float rnd (remove_commas (t @ ''%'')) = Inl ValueError"
      by (rule py_float_percent) (simp add: remove_commas_def)
    ultimately show ?thesis by simp
  qed
  show "parse_percent rnd (Some ''12.5%'') = Inr (Some (rnd False 12.5))"
    by (simp add: parser_eval)
  show "parse_percent rnd (Some ''-3.2%'') = Inr (Some (rnd True 3.2))"
    by (simp add: parser_eval)
  show "parse_percent rnd (Some ''-'') = Inr None"
    by (simp add: parser_eval)
  show "parse_percent rnd (Some '''') = Inr None"
    by (simp add: parser_eval)
qed

theorem parse_percent_spec_witness:
  "parse_percent exact (Some '' nan '') = Inr None
   \<and> parse_float exact (Some '' nan '') = Inr None
   \<and> parse_percent exact (Some '' 45.1% '') = Inr (Some (exact False 45.1))
   \<and> parse_percent exact (Some ''45.1%%'') = Inr None
   \<and> parse_percent exact (Some '' 12.5 '') = Inr (Some (exact False 12.5))
   \<and> parse_percent exact (Some ''12.5 pct'') = Inr None
   \<and> parse_percent exact (Some ''1,250.5%'') = Inr (Some (exact False 1250.5))"
proof -
  note T = parse_percent_spec
  have 1: "strip '' nan '' \<in> SENTINELS" by code_simp
  have 2: "strip '' 45.1% '' = ''45.1'' @ ''%''" by code_simp
  have f2: "py_float exact (remove_commas ''45.1'') = Inr (exact False 45.1)"
    by (simp add: parser_eval)
  have 3: "strip ''45.1%%'' = ''45.1'' @ ''%%''" by code_simp
  have 4: "strip '' 12.5 '' \<notin> SENTINELS \<and> \<not> ends_with_percent (strip '' 12.5 '')"
    by code_simp
  have f4: "py_float exact (remove_commas (strip '' 12.5 '')) = Inr (exact False 12.5)"
    by (simp add: parser_eval)
  have 5: "strip ''12.5 pct'' \<notin> SENTINELS \<and> \<not> ends_with_percent (strip ''12.5 pct'')"
    by code_simp
  have f5: "py_float exact (remove_commas (strip ''12.5 pct'')) = Inl ValueError"
    by code_simp
  have 6: "strip ''1,250.5%'' \<notin> SENTINELS" by code_simp
  have f6: "py_float exact (remove_commas
              (if ends_with_percent (strip ''1,250.5%'') then butlast (strip ''1,250.5%'')
               else strip ''1,250.5%'')) = Inr (exact False 1250.5)"
    by (simp add: parser_eval)
  from T [of exact "'' nan ''"] 1
  have a: "parse_percent exact (Some '' nan '') = Inr None \<and> parse_float exact (Some '' nan '') = Inr None"
    by blast
  from T [of exact "'' 45.1% ''"] 2
  have "parse_percent exact (Some '' 45.1% '')
          = Inr (case py_float exact (remove_commas ''45.1'') of
                   Inl e \<Rightarrow> None | Inr f \<Rightarrow> Some f)"
    by blast
  then have b: "parse_percent exact (Some '' 45.1% '') = Inr (Some (exact False 45.1))"
    unfolding f2 by simp
  from T [of exact "''45.1%%''"] 3
  have c: "parse_percent exact (Some ''45.1%%'') = Inr None"
    by blast
  from T [of exact "'' 12.5 ''"] 4
  have "parse_percent exact (Some '' 12.5 '')
          = Inr (case py_float exact (remove_commas (strip '' 12.5 '')) of
                   Inl e \<Rightarrow> None | Inr f \<Rightarrow> Some f)"
    by blast
  then have d: "parse_percent exact (Some '' 12.5 '') = Inr (Some (exact False 12.5))"
    unfolding f4 by simp
  from T [of exact "''12.5 pct''"] 5
  have "parse_percent exact (Some ''12.5 pct'')
          = Inr (case py_float exact (remove_commas (strip ''12.5 pct'')) of
                   Inl e \<Rightarrow> None | Inr f \<Rightarrow> Some f)"
    by blast
  then have e: "parse_percent exact (Some ''12.5 pct'') = Inr None"
    unfolding f5 by simp
  from T [of exact "''1,250.5%''"] 6
  have "parse_percent exact (Some ''1,250.5%'')
          = Inr (case py_float exact (remove_commas
              (if ends_with_percent (strip ''1,250.5%'') then butlast (strip ''1,250.5%'')
               else strip ''1,250.5%'')) of
                   Inl e \<Rightarrow> None | Inr f \<Rightarrow> Some f)"
    by blast
  then have f: "parse_percent exact (Some ''1,250.5%'') = Inr (Some (exact False 1250.5))"
    unfolding f6 by simp
  from a b c d e f show ?thesis by simp
qed

text \<open>
  Claim C9.  \<open>parse_percent\<close> removes the commas with the same
  \<^verbatim>\<open>text.replace(",", "")\<close> as \<open>parse_float\<close>, after the percent sign is off.  A text
  without a percent sign at its end gets the same result from both parsers, and a
  trimmed text \<open>g\<close> other than a sentinel followed by a percent sign gets from
  \<open>parse_percent\<close> the result of \<open>parse_float\<close> on \<open>g\<close>: \<^verbatim>\<open>parse_percent("1,234.5%")\<close> is
  1234.5.
\<close>

theorem parse_percent_commas:
  "(strip s \<notin> SENTINELS \<longrightarrow>
      parse_percent rnd (Some s)
        = Inr (case py_float rnd (filter (\<lambda>c. c \<noteq> CHR '','')
                      (if ends_with_percent (strip s) then butlast (strip s) else strip s)) of
                 Inl e \<Rightarrow> None | Inr f \<Rightarrow> Some f))
   \<and> (\<not> ends_with_percent (strip s) \<longrightarrow>
        parse_percent rnd (Some s) = parse_float rnd (Some s))
   \<and> (strip g = g \<and> g \<notin> SENTINELS \<longrightarrow>
        parse_percent rnd (Some (g @ ''%'')) = parse_float rnd (Some g))
   \<and> parse_percent rnd (Some ''1,234.5%'') = Inr (Some (rnd False 1234.5))
   \<and> parse_float rnd (Some ''1,234.5'') = Inr (Some (rnd False 1234.5))"
proof (intro conjI impI)
  show "parse_percent rnd (Some s)
        = Inr (case py_float rnd (filter (\<lambda>c. c \<noteq> CHR '','')
                      (if ends_with_percent (strip s) then butlast (strip s) else strip s)) of
                 Inl e \<Rightarrow> None | Inr f \<Rightarrow> Some f)"
    if "strip s \<notin> SENTINELS"
    using that by (simp add: parse_percent_Some remove_commas_def)
  show "parse_percent rnd (Some s) = parse_float rnd (Some s)"
    if "\<not> ends_with_percent (strip s)"
    using that by (simp add: parse_percent_Some parse_float_Some)
  show "parse_percent rnd (Some (g @ ''%'')) = parse_float rnd (Some g)"
    if a: "strip g = g \<and> g \<notin> SENTINELS"
  proof -
    from a have "strip (g @ ''%'') = g @ ''%''" by (intro strip_percent) simp
    from parse_percent_sign [OF this, of rnd] a show ?thesis
      by (simp add: parse_float_Some)
  qed
  show "parse_percent rnd (Some ''1,234.5%'') = Inr (Some (rnd False 1234.5))"
    by (simp add: parser_eval)
  show "parse_float rnd (Some ''1,234.5'') = Inr (Some (rnd False 1234.5))"
    by (simp add: parser_eval)
qed

theorem parse_percent_commas_witness:
  "parse_percent exact (Some ''12,345.5%'') = parse_float exact (Some ''12,345.5'')
   \<and> parse_float exact (Some ''12,345.5'') = Inr (Some (exact False 12345.5))
   \<and> parse_percent exact (Some '' 7,000 '') = parse_float exact (Some '' 7,000 '')
   \<and> parse_percent exact (Some '' 7,000 '') = Inr (Some (exact False 7000))"
proof -
  note T = parse_percent_commas
  have 1: "strip ''12,345.5'' = ''12,345.5'' \<and> ''12,345.5'' \<notin> SENTINELS" by code_simp
  have 2: "\<not> ends_with_percent (strip '' 7,000 '')" by code_simp
  have 3: "strip '' 7,000 '' \<notin> SENTINELS" by code_simp
  have f3: "py_float exact (filter (\<lambda>c. c \<noteq> CHR '','')
                      (if ends_with_percent (strip '' 7,000 '') then butlast (strip '' 7,000 '')
                       else strip '' 7,000 '')) = Inr (exact False 7000)"
    by (simp add: parser_eval)
  from T [of "''12,345.5''" exact "''12,345.5''"] 1
  have a: "parse_percent exact (Some (''12,345.5'' @ ''%'')) = parse_float exact (Some ''12,345.5'')"
    by blast
  have b: "parse_float exact (Some ''12,345.5'') = Inr (Some (exact False 12345.5))"
    by (simp add: parser_eval)
  from T [of "'' 7,000 ''" exact "[]"] 2
  have c: "parse_percent exact (Some '' 7,000 '') = parse_float exact (Some '' 7,000 '')"
    by blast
  from T [of "'' 7,000 ''" exact "[]"] 3
  have "parse_percent exact (Some '' 7,000 '')
        = Inr (case py_float exact (filter (\<lambda>c. c \<noteq> CHR '','')
                      (if ends_with_percent (strip '' 7,000 '') then butlast (strip '' 7,000 '')
                       else strip '' 7,000 '')) of
                 Inl e \<Rightarrow> None | Inr f \<Rightarrow> Some f)"
    by blast
  then have d: "parse_percent exact (Some '' 7,000 '') = Inr (Some (exact False 7000))"
    unfolding f3 by simp
  from a b c d show ?thesis by simp
qed

section \<open>The loops that fill a row\<close>

lemma common_fields_total:
  assumes "\<forall>(field, col, parser)\<in>set fm. \<forall>v. \<exists>r. parser v = Inr r"
  shows "\<exists>row'. common_fields fm fundament row = Inr row'"
  using assms
proof (induction fm arbitrary: row)
  case Nil
  then show ?case by simp
next
  case (Cons e fm)
  obtain field col parser where e: "e = (field, col, parser)" by (cases e)
  from Cons.prems e obtain v where v: "parser (fundament field) = Inr v" by fastforce
  from Cons.prems have "\<forall>(field, col, parser)\<in>set fm. \<forall>v. \<exists>r. parser v = Inr r" by simp
  from Cons.IH [OF this] show ?case by (simp add: e v)
qed

lemma common_fields_keys:
  assumes "common_fields fm fundament row = Inr row'"
    and "distinct (map fst row @ map (\<lambda>(field, col, parser). col) fm)"
  shows "map fst row' = map fst row @ map (\<lambda>(field, col, parser). col) fm"
  using assms
proof (induction fm arbitrary: row)
  case Nil
  then show ?case by simp
next
  case (Cons e fm)
  obtain field col parser where e: "e = (field, col, parser)" by (cases e)
  from Cons.prems(1) e obtain v where v: "parser (fundament field) = Inr v"
    and r: "common_fields fm fundament (AList.update col (num_cell v) row) = Inr row'"
    by (auto split: sum.splits)
  from Cons.prems(2) e have new: "col \<notin> set (map fst row)" by auto
  then have k: "map fst (AList.update col (num_cell v) row) = map fst row @ [col]"
    by (simp add: update_keys)
  have "distinct (map fst (AList.update col (num_cell v) row)
                    @ map (\<lambda>(field, col, parser). col) fm)"
    unfolding k using Cons.prems(2) e by auto
  from Cons.IH [OF r this] show ?case by (simp add: k e)
qed

lemma common_fields_lookup:
  assumes "common_fields fm fundament row = Inr row'"
    and "distinct (map (\<lambda>(field, col, parser). col) fm)"
  shows "(\<forall>k. k \<notin> set (map (\<lambda>(field, col, parser). col) fm) \<longrightarrow> map_of row' k = map_of row k)
       \<and> (\<forall>(field, col, parser)\<in>set fm.
            \<exists>v. parser (fundament field) = Inr v \<and> map_of row' col = Some (num_cell v))"
  using assms
proof (induction fm arbitrary: row)
  case Nil
  then show ?case by simp
next
  case (Cons e fm)
  obtain field col parser where e: "e = (field, col, parser)" by (cases e)
  from Cons.prems(1) e obtain v where v: "parser (fundament field) = Inr v"
    and r: "common_fields fm fundament (AList.update col (num_cell v) row) = Inr row'"
    by (auto split: sum.splits)
  from Cons.prems(2) e have d: "distinct (map (\<lambda>(field, col, parser). col) fm)"
    and new: "col \<notin> set (map (\<lambda>(field, col, parser). col) fm)" by auto
  from Cons.IH [OF r d]
  have IH1: "\<And>k. k \<notin> set (map (\<lambda>(field, col, parser). col) fm) \<Longrightarrow>
               map_of row' k = map_of (AList.update col (num_cell v) row) k"
    and 3: "\<forall>(field, col, parser)\<in>set fm.
            \<exists>v. parser (fundament field) = Inr v \<and> map_of row' col = Some (num_cell v)"
    by blast+
  have 1: "map_of row' k = map_of row k"
    if "k \<notin> set (map (\<lambda>(field, col, parser). col) (e # fm))" for k
  proof -
    from that e have "k \<noteq> col" "k \<notin> set (map (\<lambda>(field, col, parser). col) fm)" by auto
    with IH1 [of k] show ?thesis by (simp add: update_conv')
  qed
  have 2: "map_of row' col = Some (num_cell v)"
    using IH1 [OF new] by (simp add: update_conv')
  from 1 2 3 v show ?case by (simp add: e)
qed

lemma high_low_fields_total:
  "\<exists>row'. high_low_fields rnd hl fundament row = Inr row'"
proof (induction hl arbitrary: row)
  case Nil
  then show ?case by simp
next
  case (Cons e hl)
  obtain field pc dc where e: "e = (field, pc, dc)" by (cases e)
  obtain price pct where "parse_high_low rnd (fundament field) = Inr (price, pct)"
    using parse_high_low_total by blast
  with Cons.IH show ?case by (simp add: e)
qed

lemma high_low_fields_keys:
  assumes "high_low_fields rnd hl fundament row = Inr row'"
    and "distinct (map fst row @ concat (map (\<lambda>(field, pc, dc). [pc, dc]) hl))"
  shows "map fst row' = map fst row @ concat (map (\<lambda>(field, pc, dc). [pc, dc]) hl)"
  using assms
proof (induction hl arbitrary: row)
  case Nil
  then show ?case by simp
next
  case (Cons e hl)
  obtain field pc dc where e: "e = (field, pc, dc)" by (cases e)
  from Cons.prems(1) e obtain price pct where
    v: "parse_high_low rnd (fundament field) = Inr (price, pct)"
    and r: "high_low_fields rnd hl fundament
              (AList.update dc (num_cell pct) (AList.update pc (num_cell price) row)) = Inr row'"
    by (auto split: sum.splits prod.splits)
  let ?row = "AList.update dc (num_cell pct) (AList.update pc (num_cell price) row)"
  from Cons.prems(2) e have new: "pc \<notin> set (map fst row)" "dc \<notin> set (map fst row)" "pc \<noteq> dc"
    by auto
  then have k: "map fst ?row = map fst row @ [pc, dc]"
    by (simp add: update_keys)
  have "distinct (map fst ?row @ concat (map (\<lambda>(field, pc, dc). [pc, dc]) hl))"
    unfolding k using Cons.prems(2) e by auto
  from Cons.IH [OF r this] show ?case by (simp add: k e)
qed

lemma high_low_fields_lookup:
  assumes "high_low_fields rnd hl fundament row = Inr row'"
    and "distinct (concat (map (\<lambda>(field, pc, dc). [pc, dc]) hl))"
  shows "(\<forall>k. k \<notin> set (concat (map (\<lambda>(field, pc, dc). [pc, dc]) hl)) \<longrightarrow>
            map_of row' k = map_of row k)
       \<and> (\<forall>(field, pc, dc)\<in>set hl.
            \<exists>price pct. parse_high_low rnd (fundament field) = Inr (price, pct)
               \<and> map_of row' pc = Some (num_cell price)
               \<and> map_of row' dc = Some (num_cell pct))"
  using assms
proof (induction hl arbitrary: row)
  case Nil
  then show ?case by simp
next
  case (Cons e hl)
  obtain field pc dc where e: "e = (field, pc, dc)" by (cases e)
  from Cons.prems(1) e obtain price pct where
    v: "parse_high_low rnd (fundament field) = Inr (price, pct)"
    and r: "high_low_fields rnd hl fundament
              (AList.update dc (num_cell pct) (AList.update pc (num_cell price) row)) = Inr row'"
    by (auto split: sum.splits prod.splits)
  let ?cols = "concat (map (\<lambda>(field, pc, dc). [pc, dc]) hl)"
  from Cons.prems(2) e have d: "distinct ?cols"
    and new: "pc \<notin> set ?cols" "dc \<notin> set ?cols" "pc \<noteq> dc" by auto
  let ?row = "AList.update dc (num_cell pct) (AList.update pc (num_cell price) row)"
  from Cons.IH [OF r d]
  have IH1: "\<And>k. k \<notin> set ?cols \<Longrightarrow> map_of row' k = map_of ?row k"
    and 4: "\<forall>(field, pc, dc)\<in>set hl.
            \<exists>price pct. parse_high_low rnd (fundament field) = Inr (price, pct)
               \<and> map_of row' pc = Some (num_cell price)
               \<and> map_of row' dc = Some (num_cell pct)"
    by blast+
  have 1: "map_of row' k = map_of row k"
    if "k \<notin> set (concat (map (\<lambda>(field, pc, dc). [pc, dc]) (e # hl)))" for k
  proof -
    from that e have "k \<noteq> pc" "k \<noteq> dc" "k \<notin> set ?cols" by auto
    with IH1 [of k] show ?thesis by (simp add: update_conv')
  qed
  have 2: "map_of row' pc = Some (num_cell price)"
    using IH1 [OF new(1)] new(3) by (simp add: update_conv')
  have 3: "map_of row' dc = Some (num_cell pct)"
    using IH1 [OF new(2)] by (simp add: update_conv')
  from 1 2 3 4 v show ?case by (simp add: e)
qed

section \<open>The columns of a row\<close>

lemma common_parsers_total:
  "\<forall>(field, col, parser)\<in>set (COMMON_FIELD_MAP rnd). \<forall>v. \<exists>r. parser v = Inr r"
  by (simp add: COMMON_FIELD_MAP_def parse_float_total parse_percent_total)

lemma common_parsers_None:
  "\<forall>(field, col, parser)\<in>set (COMMON_FIELD_MAP rnd). parser None = Inr None"
  by (simp add: COMMON_FIELD_MAP_def parse_float_def parse_percent_def)

lemma common_columns:
  "map (\<lambda>(field, col, parser). col) (COMMON_FIELD_MAP rnd) =
     [''price'', ''change_pct'', ''pe'', ''forward_pe'', ''peg'', ''eps_growth_this_year_pct'',
      ''eps_next_year'', ''eps_next_5y_pct'', ''sales_yoy_ttm_pct'', ''eps_qoq_pct'',
      ''sales_qoq_pct'', ''roe_pct'', ''roic_pct'', ''gross_margin_pct'', ''oper_margin_pct'',
      ''profit_margin_pct'', ''debt_to_equity'', ''lt_debt_to_equity'', ''current_ratio'',
      ''quick_ratio'', ''short_float_pct'', ''short_ratio'', ''insider_own_pct'',
      ''insider_trans_pct'', ''institutional_own_pct'', ''institutional_trans_pct'',
      ''perf_week_pct'', ''perf_month_pct'', ''sma20_pct'', ''sma50_pct'', ''sma200_pct'',
      ''rsi_14'']"
  by (simp add: COMMON_FIELD_MAP_def)

lemma high_low_columns:
  "concat (map (\<lambda>(field, pc, dc). [pc, dc]) HIGH_LOW_FIELDS) =
     [''52w_high_price'', ''52w_high_distance_pct'', ''52w_low_price'', ''52w_low_distance_pct'']"
  by (simp add: HIGH_LOW_FIELDS_def)

lemma columns_distinct:
  "distinct ([''ticker'', ''sector'', ''industry'', ''country'']
             @ map (\<lambda>(field, col, parser). col) (COMMON_FIELD_MAP rnd)
             @ concat (map (\<lambda>(field, pc, dc). [pc, dc]) HIGH_LOW_FIELDS))"
  unfolding common_columns high_low_columns by simp

text \<open>The row of one ticker: its keys and what is stored under them.\<close>

lemma build_record_row:
  "\<exists>row. build_record rnd ticker fundament = Inr row
     \<and> map fst row = [''ticker'', ''sector'', ''industry'', ''country'']
                      @ map (\<lambda>(field, col, parser). col) (COMMON_FIELD_MAP rnd)
                      @ concat (map (\<lambda>(field, pc, dc). [pc, dc]) HIGH_LOW_FIELDS)
     \<and> distinct (map fst row) \<and> length row = 40
     \<and> map_of row ''ticker'' = Some (Str (upper ticker))
     \<and> map_of row ''sector''
         = Some (case fundament ''Sector'' of None \<Rightarrow> PyNone | Some s \<Rightarrow> Str s)
     \<and> map_of row ''industry''
         = Some (case fundament ''Industry'' of None \<Rightarrow> PyNone | Some s \<Rightarrow> Str s)
     \<and> map_of row ''country''
         = Some (case fundament ''Country'' of None \<Rightarrow> PyNone | Some s \<Rightarrow> Str s)
     \<and> (\<forall>(field, col, parser)\<in>set (COMMON_FIELD_MAP rnd).
           fundament field = None \<longrightarrow> map_of row col = Some PyNone)
     \<and> (\<forall>(field, pc, dc)\<in>set HIGH_LOW_FIELDS.
           fundament field = None \<longrightarrow>
             map_of row pc = Some PyNone \<and> map_of row dc = Some PyNone)"
proof -
  let ?row0 = "[(''ticker'', Str (upper ticker)),
                (''sector'', str_cell (fundament ''Sector'')),
                (''industry'', str_cell (fundament ''Industry'')),
                (''country'', str_cell (fundament ''Country''))] :: 'a row"
  let ?cc = "map (\<lambda>(field, col, parser). col) (COMMON_FIELD_MAP rnd)"
  let ?hc = "concat (map (\<lambda>(field, pc, dc). [pc, dc]) HIGH_LOW_FIELDS)"
  have k0: "map fst ?row0 = [''ticker'', ''sector'', ''industry'', ''country'']" by simp
  note dall = columns_distinct [of rnd]
  obtain row1 where r1: "common_fields (COMMON_FIELD_MAP rnd) fundament ?row0 = Inr row1"
    using common_fields_total [OF common_parsers_total] by blast
  obtain row2 where r2: "high_low_fields rnd HIGH_LOW_FIELDS fundament row1 = Inr row2"
    using high_low_fields_total by blast
  have br: "build_record rnd ticker fundament = Inr row2"
    by (simp add: build_record_def Let_def r1 r2)
  have d1: "distinct (map fst ?row0 @ ?cc)"
    unfolding k0 using dall by simp
  have k1: "map fst row1 = [''ticker'', ''sector'', ''industry'', ''country''] @ ?cc"
    using common_fields_keys [OF r1 d1] unfolding k0 .
  have d2: "distinct (map fst row1 @ ?hc)"
    unfolding k1 using dall by simp
  have k2: "map fst row2 = [''ticker'', ''sector'', ''industry'', ''country''] @ ?cc @ ?hc"
    using high_low_fields_keys [OF r2 d2] unfolding k1 by simp
  have dk: "distinct (map fst row2)" unfolding k2 by (rule dall)
  have "length (map fst row2) = 40"
    unfolding k2 common_columns high_low_columns by simp
  then have len: "length row2 = 40" by simp
  have dc: "distinct ?cc" and dh: "distinct ?hc"
    and disj: "set ?cc \<inter> set ?hc = {}"
    and cat: "set [''ticker'', ''sector'', ''industry'', ''country''] \<inter> (set ?cc \<union> set ?hc) = {}"
    using dall by auto
  note l1 = common_fields_lookup [OF r1 dc]
  note l2 = high_low_fields_lookup [OF r2 dh]
  have keep: "map_of row2 k = map_of ?row0 k"
    if "k \<in> set [''ticker'', ''sector'', ''industry'', ''country'']" for k
  proof -
    from that cat have "k \<notin> set ?cc" "k \<notin> set ?hc" by blast+
    with l1 l2 show ?thesis by simp
  qed
  have t: "map_of row2 ''ticker'' = Some (Str (upper ticker))"
    by (subst keep) simp_all
  have s: "map_of row2 ''sector''
         = Some (case fundament ''Sector'' of None \<Rightarrow> PyNone | Some s \<Rightarrow> Str s)"
    by (subst keep) (simp_all add: str_cell_def)
  have i: "map_of row2 ''industry''
         = Some (case fundament ''Industry'' of None \<Rightarrow> PyNone | Some s \<Rightarrow> Str s)"
    by (subst keep) (simp_all add: str_cell_def)
  have c: "map_of row2 ''country''
         = Some (case fundament ''Country'' of None \<Rightarrow> PyNone | Some s \<Rightarrow> Str s)"
    by (subst keep) (simp_all add: str_cell_def)
  have common: "\<forall>(field, col, parser)\<in>set (COMMON_FIELD_MAP rnd).
           fundament field = None \<longrightarrow> map_of row2 col = Some PyNone"
  proof (intro ballI, clarify)
    fix field col parser
    assume m: "(field, col, parser) \<in> set (COMMON_FIELD_MAP rnd)" and n: "fundament field = None"
    from l1 m obtain v where v: "parser (fundament field) = Inr v"
      and lk: "map_of row1 col = Some (num_cell v)" by blast
    from common_parsers_None [of rnd] m have "parser None = Inr None" by blast
    with v n have "v = None" by simp
    moreover from m have "col \<in> set ?cc" by force
    with disj have "col \<notin> set ?hc" by blast
    with l2 have "map_of row2 col = map_of row1 col" by simp
    ultimately show "map_of row2 col = Some PyNone" using lk by (simp add: num_cell_def)
  qed
  have hl: "\<forall>(field, pc, dc)\<in>set HIGH_LOW_FIELDS.
           fundament field = None \<longrightarrow>
             map_of row2 pc = Some PyNone \<and> map_of row2 dc = Some PyNone"
  proof (intro ballI, clarify)
    fix field pc dc
    assume m: "(field, pc, dc) \<in> set HIGH_LOW_FIELDS" and n: "fundament field = None"
    from l2 m obtain price pct where v: "parse_high_low rnd (fundament field) = Inr (price, pct)"
      and lk: "map_of row2 pc = Some (num_cell price)" "map_of row2 dc = Some (num_cell pct)"
      by blast
    from v n have "price = None" "pct = None" by (simp_all add: parse_high_low_def)
    with lk show "map_of row2 pc = Some PyNone \<and> map_of row2 dc = Some PyNone"
      by (simp add: num_cell_def)
  qed
  from br k2 dk len t s i c common hl show ?thesis by blast
qed

section \<open>Claims about the row of a ticker\<close>

text \<open>
  Claim C1.  For every ticker and every raw quote, the empty one included, the row built
  for the ticker has the same keys in the same order: \<^verbatim>\<open>ticker\<close>, \<^verbatim>\<open>sector\<close>, \<^verbatim>\<open>industry\<close>,
  \<^verbatim>\<open>country\<close>, the target column of every entry of \<open>COMMON_FIELD_MAP\<close> and the two target
  columns of every entry of \<open>HIGH_LOW_FIELDS\<close>, forty distinct keys in all.  No exception
  arises.  The ticker is stored in upper case, and under the column of a source field
  that the raw quote lacks \<^verbatim>\<open>None\<close> is stored.
\<close>

theorem build_record_columns:
  "\<exists>row. build_record rnd ticker fundament = Inr row
     \<and> map fst row = [''ticker'', ''sector'', ''industry'', ''country'']
                      @ map (\<lambda>(field, col, parser). col) (COMMON_FIELD_MAP rnd)
                      @ concat (map (\<lambda>(field, pc, dc). [pc, dc]) HIGH_LOW_FIELDS)
     \<and> distinct (map fst row) \<and> length row = 40
     \<and> map_of row ''ticker'' = Some (Str (upper ticker))
     \<and> map_of row ''sector''
         = Some (case fundament ''Sector'' of None \<Rightarrow> PyNone | Some s \<Rightarrow> Str s)
     \<and> map_of row ''industry''
         = Some (case fundament ''Industry'' of None \<Rightarrow> PyNone | Some s \<Rightarrow> Str s)
     \<and> map_of row ''country''
         = Some (case fundament ''Country'' of None \<Rightarrow> PyNone | Some s \<Rightarrow> Str s)
     \<and> (\<forall>(field, col, parser)\<in>set (COMMON_FIELD_MAP rnd).
           fundament field = None \<longrightarrow> map_of row col = Some PyNone)
     \<and> (\<forall>(field, pc, dc)\<in>set HIGH_LOW_FIELDS.
           fundament field = None \<longrightarrow>
             map_of row pc = Some PyNone \<and> map_of row dc = Some PyNone)"
  by (rule build_record_row)

theorem build_record_columns_witness:
  "\<exists>row. build_record exact ''aapl'' (\<lambda>field. None) = Inr row
     \<and> length row = 40
     \<and> map_of row ''ticker'' = Some (Str ''AAPL'')
     \<and> map_of row ''sector'' = Some PyNone
     \<and> map_of row ''price'' = Some PyNone
     \<and> map_of row ''52w_low_distance_pct'' = Some PyNone"
proof -
  from build_record_columns [of exact "''aapl''" "\<lambda>field. None"]
  obtain row where br: "build_record exact ''aapl'' (\<lambda>field. None) = Inr row"
    and len: "length row = 40"
    and t: "map_of row ''ticker'' = Some (Str (upper ''aapl''))"
    and s: "map_of row ''sector'' = Some (case None of None \<Rightarrow> PyNone | Some s \<Rightarrow> Str s)"
    and common: "\<forall>(field, col, parser)\<in>set (COMMON_FIELD_MAP exact).
           None = (None :: string option) \<longrightarrow> map_of row col = Some PyNone"
    and hl: "\<forall>(field, pc, dc)\<in>set HIGH_LOW_FIELDS.
           None = (None :: string option) \<longrightarrow>
             map_of row pc = Some PyNone \<and> map_of row dc = Some PyNone"
    by blast
  have u: "upper ''aapl'' = ''AAPL''" by code_simp
  have m1: "(''Price'', ''price'', parse_float exact) \<in> set (COMMON_FIELD_MAP exact)"
    by (simp add: COMMON_FIELD_MAP_def)
  have m2: "(''52W Low'', ''52w_low_price'', ''52w_low_distance_pct'') \<in> set HIGH_LOW_FIELDS"
    by (simp add: HIGH_LOW_FIELDS_def)
  from common m1 have p: "map_of row ''price'' = Some PyNone" by blast
  from hl m2 have d: "map_of row ''52w_low_distance_pct'' = Some PyNone" by blast
  from br len t s p d u show ?thesis by simp
qed

section \<open>The data frame of the rows\<close>

lemma add_keys_known:
  "set ks \<subseteq> set acc \<Longrightarrow>
   fold (\<lambda>k cols. if k \<in> set cols then cols else cols @ [k]) ks acc = acc"
  by (induction ks arbitrary: acc) simp_all

lemma add_keys_new:
  "distinct ks \<Longrightarrow> set ks \<inter> set acc = {} \<Longrightarrow>
   fold (\<lambda>k cols. if k \<in> set cols then cols else cols @ [k]) ks acc = acc @ ks"
  by (induction ks arbitrary: acc) auto

lemma union_keys_same:
  assumes "rows \<noteq> []" "\<forall>r\<in>set rows. map fst r = cols" "distinct cols"
  shows "union_keys rows = cols"
proof -
  from assms(1) obtain r rs where rows: "rows = r # rs" by (cases rows) auto
  with assms(2) have r: "map fst r = cols" and rs: "\<forall>r\<in>set rs. map fst r = cols" by auto
  have 1: "fold (\<lambda>k cols. if k \<in> set cols then cols else cols @ [k]) cols [] = cols"
    using add_keys_new [OF assms(3), of "[]"] by simp
  have "set (concat (map (map fst) rs)) \<subseteq> set cols" using rs by auto
  from add_keys_known [OF this]
  have 2: "fold (\<lambda>k cols. if k \<in> set cols then cols else cols @ [k])
             (concat (map (map fst) rs)) cols = cols" .
  show ?thesis
    unfolding union_keys_def rows by (simp add: r 1 2)
qed

lemma pd_DataFrame_same:
  assumes "rows \<noteq> []" "\<forall>r\<in>set rows. map fst r = cols" "distinct cols"
  shows "pd_DataFrame rows
         = \<lparr>columns = cols, data = map (\<lambda>row. map (frame_cell rows row) cols) rows\<rparr>"
  using union_keys_same [OF assms] by (simp add: pd_DataFrame_def)

lemma frame_cell_Str:
  "map_of row c = Some (Str x) \<Longrightarrow> frame_cell rows row c = Str x"
  by (simp add: frame_cell_def lookup_cell_def)

lemma collect_rows_rows:
  assumes "collect_rows rnd source w tickers = Inr (rows, w')"
  shows "list_all2 (\<lambda>t row. \<exists>q. build_record rnd t q = Inr row) tickers rows"
  using assms
proof (induction tickers arbitrary: w rows)
  case Nil
  then show ?case by simp
next
  case (Cons t ts)
  from Cons.prems obtain q w1 row rs where s: "source w t = (Inr q, w1)"
    and b: "build_record rnd t q = Inr row"
    and r: "collect_rows rnd source w1 ts = Inr (rs, w')"
    and rows: "rows = row # rs"
    by (auto split: prod.splits sum.splits)
  from Cons.IH [OF r] b rows show ?case by auto
qed

lemma collect_rows_total:
  assumes "\<forall>w. \<forall>t\<in>set tickers. \<exists>q. fst (source w t) = Inr q"
  shows "\<exists>rows w'. collect_rows rnd source w tickers = Inr (rows, w')"
  using assms
proof (induction tickers arbitrary: w)
  case Nil
  then show ?case by simp
next
  case (Cons t ts)
  from Cons.prems obtain q where "fst (source w t) = Inr q" by auto
  then obtain w1 where s: "source w t = (Inr q, w1)" by (cases "source w t") auto
  obtain row where b: "build_record rnd t q = Inr row"
    using build_record_row [of rnd t q] by blast
  from Cons.prems have "\<forall>w. \<forall>t\<in>set ts. \<exists>q. fst (source w t) = Inr q" by simp
  from Cons.IH [OF this, of w1] obtain rs w' where "collect_rows rnd source w1 ts = Inr (rs, w')"
    by blast
  with s b show ?case by simp
qed

section \<open>The snapshot of a run\<close>

lemma record_of_cells:
  "zip (take 1 (''ticker'' # cols) @ [''snapshot_utc''] @ drop 1 (''ticker'' # cols))
       (take 1 (map g (''ticker'' # cols)) @ [v] @ drop 1 (map g (''ticker'' # cols)))
   = (''ticker'', g ''ticker'') # (''snapshot_utc'', v) # zip cols (map g cols)"
  by simp

lemma df_insert_ok:
  assumes "col \<notin> set cs" "loc \<le> length cs"
  shows "df_insert loc col v \<lparr>columns = cs, data = d\<rparr>
         = Inr \<lparr>columns = take loc cs @ [col] @ drop loc cs,
                data = map (\<lambda>r. take loc r @ [v] @ drop loc r) d\<rparr>"
  using assms by (simp add: df_insert_def)

lemma df_records_frame:
  "df_records \<lparr>columns = cs, data = map f rows\<rparr> = map (\<lambda>r. zip cs (f r)) rows"
  by (simp add: df_records_def comp_def)

lemma collect_empty: "collect_quote_features rnd source now w [] = Inl IndexError"
  by (simp add: collect_quote_features_def pd_DataFrame_def union_keys_def df_insert_def)

text \<open>The data frame of a successful run on a list that is not empty.\<close>

lemma collect_result:
  assumes cr: "collect_rows rnd source w tickers = Inr (rows, w')" and ne: "tickers \<noteq> []"
  shows "\<exists>df. collect_quote_features rnd source now w tickers = Inr df
           \<and> list_all2 (\<lambda>t rec. map_of rec ''ticker'' = Some (Str (upper t))
                                \<and> map_of rec ''snapshot_utc'' = Some (Str (now w')))
                tickers (df_records df)"
proof -
  let ?cols = "[''sector'', ''industry'', ''country'']
               @ map (\<lambda>(field, col, parser). col) (COMMON_FIELD_MAP rnd)
               @ concat (map (\<lambda>(field, pc, dc). [pc, dc]) HIGH_LOW_FIELDS)"
  let ?ts = "Str (now w') :: 'a cell"
  let ?rec = "\<lambda>row :: 'a row. (''ticker'', frame_cell rows row ''ticker'')
                 # (''snapshot_utc'', ?ts) # zip ?cols (map (frame_cell rows row) ?cols)"
  have built: "list_all2 (\<lambda>t row. \<exists>q. build_record rnd t q = Inr row) tickers rows"
    using cr by (rule collect_rows_rows)
  have row: "map fst row = ''ticker'' # ?cols \<and> map_of row ''ticker'' = Some (Str (upper t))"
    if "build_record rnd t q = Inr row" for t q row
    using build_record_row [of rnd t q] that by auto
  have keys: "\<forall>r\<in>set rows. map fst r = ''ticker'' # ?cols"
  proof
    fix r assume "r \<in> set rows"
    then obtain i where "i < length rows" "rows ! i = r" by (auto simp: in_set_conv_nth)
    with built obtain q where "build_record rnd (tickers ! i) q = Inr r"
      by (auto simp: list_all2_conv_all_nth)
    with row show "map fst r = ''ticker'' # ?cols" by blast
  qed
  have dist: "distinct (''ticker'' # ?cols)"
    using columns_distinct [of rnd] by simp
  have rne: "rows \<noteq> []" using built ne by auto
  have frame: "pd_DataFrame rows
               = \<lparr>columns = ''ticker'' # ?cols,
                  data = map (\<lambda>row. map (frame_cell rows row) (''ticker'' # ?cols)) rows\<rparr>"
    using rne keys dist by (rule pd_DataFrame_same)
  have new: "''snapshot_utc'' \<notin> set (''ticker'' # ?cols)"
    unfolding common_columns high_low_columns by simp
  define df :: "'a dataframe" where
    "df = \<lparr>columns = take 1 (''ticker'' # ?cols) @ [''snapshot_utc''] @ drop 1 (''ticker'' # ?cols),
           data = map (\<lambda>row. take 1 (map (frame_cell rows row) (''ticker'' # ?cols)) @ [?ts]
                              @ drop 1 (map (frame_cell rows row) (''ticker'' # ?cols))) rows\<rparr>"
  have dm: "map (\<lambda>r. take 1 r @ [?ts] @ drop 1 r)
              (map (\<lambda>row. map (frame_cell rows row) (''ticker'' # ?cols)) rows)
            = map (\<lambda>row. take 1 (map (frame_cell rows row) (''ticker'' # ?cols)) @ [?ts]
                              @ drop 1 (map (frame_cell rows row) (''ticker'' # ?cols))) rows"
    by (simp only: map_map comp_def)
  have "df_insert 1 ''snapshot_utc'' ?ts
          \<lparr>columns = ''ticker'' # ?cols,
           data = map (\<lambda>row. map (frame_cell rows row) (''ticker'' # ?cols)) rows\<rparr>
        = Inr \<lparr>columns = take 1 (''ticker'' # ?cols) @ [''snapshot_utc'']
                          @ drop 1 (''ticker'' # ?cols),
                data = map (\<lambda>r. take 1 r @ [?ts] @ drop 1 r)
                         (map (\<lambda>row. map (frame_cell rows row) (''ticker'' # ?cols)) rows)\<rparr>"
    by (rule df_insert_ok [OF new]) simp
  then have ins: "df_insert 1 ''snapshot_utc'' ?ts (pd_DataFrame rows) = Inr df"
    unfolding frame df_def dm .
  have c: "collect_quote_features rnd source now w tickers = Inr df"
    by (simp only: collect_quote_features_def cr sum.case prod.case ins)
  have "df_records df
        = map (\<lambda>row. zip (take 1 (''ticker'' # ?cols) @ [''snapshot_utc'']
                            @ drop 1 (''ticker'' # ?cols))
                         (take 1 (map (frame_cell rows row) (''ticker'' # ?cols)) @ [?ts]
                            @ drop 1 (map (frame_cell rows row) (''ticker'' # ?cols)))) rows"
    unfolding df_def by (rule df_records_frame)
  also have "\<dots> = map ?rec rows"
    by (rule map_cong [OF refl]) (rule record_of_cells)
  finally have recs: "df_records df = map ?rec rows" .
  have "list_all2 (\<lambda>t rec. map_of rec ''ticker'' = Some (Str (upper t))
                                \<and> map_of rec ''snapshot_utc'' = Some (Str (now w')))
                tickers (map ?rec rows)"
    unfolding list_all2_map2
  proof (rule list_all2_mono [OF built])
    fix t r
    assume "\<exists>q. build_record rnd t q = Inr r"
    with row have "map_of r ''ticker'' = Some (Str (upper t))" by blast
    then have "frame_cell rows r ''ticker'' = Str (upper t)" by (rule frame_cell_Str)
    then show "map_of (?rec r) ''ticker'' = Some (Str (upper t))
                 \<and> map_of (?rec r) ''snapshot_utc'' = Some (Str (now w'))"
      by simp
  qed
  with c recs show ?thesis by auto
qed

lemma collect_returns:
  assumes "collect_quote_features rnd source now w tickers = Inr df"
  shows "tickers \<noteq> [] \<and> (\<exists>rows w'. collect_rows rnd source w tickers = Inr (rows, w'))"
proof
  show "tickers \<noteq> []" using assms collect_empty [of rnd source now w] by auto
  show "\<exists>rows w'. collect_rows rnd source w tickers = Inr (rows, w')"
    using assms by (cases "collect_rows rnd source w tickers")
      (auto simp: collect_quote_features_def)
qed

section \<open>Runs of the collection\<close>

lemma counting_source_ok: "\<forall>w. \<forall>t\<in>set tickers. \<exists>q. fst (counting_source w t) = Inr q"
  by (simp add: counting_source_def)

lemma counting_source_world:
  "collect_rows rnd counting_source w tickers = Inr (rows, w') \<Longrightarrow> w' = w + length tickers"
proof (induction tickers arbitrary: w rows)
  case Nil
  then show ?case by simp
next
  case (Cons t ts)
  have s: "counting_source w t = (Inr (\<lambda>field. None), Suc w)"
    by (simp add: counting_source_def)
  from Cons.prems obtain rs where "collect_rows rnd counting_source (Suc w) ts = Inr (rs, w')"
    by (auto simp: s split: sum.splits)
  from Cons.IH [OF this] show ?case by simp
qed

lemma collect_tickers:
  assumes "collect_quote_features rnd source now w tickers = Inr df"
  shows "\<exists>rows w'. collect_rows rnd source w tickers = Inr (rows, w')
           \<and> list_all2 (\<lambda>t rec. map_of rec ''ticker'' = Some (Str (upper t))
                                \<and> map_of rec ''snapshot_utc'' = Some (Str (now w')))
                tickers (df_records df)"
proof -
  from collect_returns [OF assms] obtain rows w' where ne: "tickers \<noteq> []"
    and cr: "collect_rows rnd source w tickers = Inr (rows, w')" by blast
  from collect_result [OF cr ne, of now] assms cr show ?thesis by auto
qed

lemma collect_succeeds:
  assumes "tickers \<noteq> []" "\<forall>w. \<forall>t\<in>set tickers. \<exists>q. fst (source w t) = Inr q"
  shows "\<exists>df. collect_quote_features rnd source now w tickers = Inr df"
proof -
  from collect_rows_total [OF assms(2)] obtain rows w'
    where "collect_rows rnd source w tickers = Inr (rows, w')" by blast
  from collect_result [OF this assms(1)] show ?thesis by blast
qed

lemma collect_ticker_column:
  assumes "collect_quote_features rnd source now w tickers = Inr df"
  shows "map (\<lambda>rec. map_of rec ''ticker'') (df_records df)
           = map (\<lambda>t. Some (Str (upper t))) tickers"
proof -
  from collect_tickers [OF assms] obtain w' where
    "list_all2 (\<lambda>t rec. map_of rec ''ticker'' = Some (Str (upper t))
                                \<and> map_of rec ''snapshot_utc'' = Some (Str (now w')))
                tickers (df_records df)"
    by blast
  then show ?thesis
    by (auto simp: list_all2_conv_all_nth intro!: nth_equalityI)
qed

text \<open>Upper case twice is upper case once.\<close>

lemma upper_char_fixed: "u \<in> set (upper_char c) \<Longrightarrow> upper_char u = [u]"
  by (auto simp: upper_char_def latin1_small_def latin1_capital_def split: if_splits)

lemma upper_fixed: "\<forall>u\<in>set s. upper_char u = [u] \<Longrightarrow> upper s = s"
  by (induction s) (simp_all add: upper_def)

lemma upper_idem: "upper (upper s) = upper s"
proof (rule upper_fixed, rule ballI)
  fix u assume "u \<in> set (upper s)"
  then obtain c where "u \<in> set (upper_char c)" by (auto simp: upper_def)
  then show "upper_char u = [u]" by (rule upper_char_fixed)
qed

text \<open>The ticker list of \<^verbatim>\<open>main\<close> and the run on it.\<close>

lemma main_tickers_blank:
  "\<forall>t\<in>set (split_on (CHR '','') arg). strip t = [] \<Longrightarrow> main_tickers arg = Inl SystemExit"
  by (simp add: main_tickers_def Let_def filter_empty_conv)

lemma main_tickers_some:
  assumes "\<exists>t\<in>set (split_on (CHR '','') arg). strip t \<noteq> []"
  shows "main_tickers arg
         = Inr (map (\<lambda>t. upper (strip t))
                  (filter (\<lambda>t. strip t \<noteq> []) (split_on (CHR '','') arg)))"
proof -
  from assms have "filter (\<lambda>t. strip t \<noteq> []) (split_on (CHR '','') arg) \<noteq> []"
    by (simp add: filter_empty_conv)
  then show ?thesis by (simp add: main_tickers_def Let_def)
qed

lemma main_collect_column:
  assumes "main_collect rnd source now w arg = Inr df"
  shows "map (\<lambda>rec. map_of rec ''ticker'') (df_records df)
           = map (\<lambda>t. Some (Str (upper (strip t))))
               (filter (\<lambda>t. strip t \<noteq> []) (split_on (CHR '','') arg))"
proof -
  let ?ts = "map (\<lambda>t. upper (strip t)) (filter (\<lambda>t. strip t \<noteq> []) (split_on (CHR '','') arg))"
  from assms have c: "collect_quote_features rnd source now w ?ts = Inr df"
    by (simp add: main_collect_def main_tickers_def Let_def split: if_splits)
  from collect_ticker_column [OF c]
  show ?thesis by (simp add: comp_def upper_idem)
qed

lemma main_collect_succeeds:
  assumes "\<exists>t\<in>set (split_on (CHR '','') arg). strip t \<noteq> []"
    and "\<forall>w t. \<exists>q. fst (source w t) = Inr q"
  shows "\<exists>df. main_collect rnd source now w arg = Inr df"
proof -
  let ?ts = "map (\<lambda>t. upper (strip t)) (filter (\<lambda>t. strip t \<noteq> []) (split_on (CHR '','') arg))"
  from assms(1) have "filter (\<lambda>t. strip t \<noteq> []) (split_on (CHR '','') arg) \<noteq> []"
    by (simp add: filter_empty_conv)
  then have ne: "?ts \<noteq> []" by simp
  from assms(2) have ok: "\<forall>w. \<forall>t\<in>set ?ts. \<exists>q. fst (source w t) = Inr q" by blast
  from collect_succeeds [OF ne ok, of rnd now w]
  show ?thesis by (simp add: main_collect_def main_tickers_some [OF assms(1)])
qed

section \<open>Claims about the snapshot\<close>

text \<open>
  Claim C2.  Whenever \<open>collect_quote_features\<close> returns a data frame, it has one row for
  each ticker, and every row carries under \<^verbatim>\<open>snapshot_utc\<close> the same value: the text of
  the clock, read once, in the state of the world after the last quote was fetched.  It
  does return a data frame when the list is not empty and the quote source raises for
  none of the tickers.
\<close>

theorem snapshot_utc_shared:
  "(\<forall>df. collect_quote_features rnd source now w tickers = Inr df \<longrightarrow>
      (\<exists>rows w'. collect_rows rnd source w tickers = Inr (rows, w')
         \<and> length (df_records df) = length tickers
         \<and> (\<forall>rec\<in>set (df_records df). map_of rec ''snapshot_utc'' = Some (Str (now w')))))
   \<and> (tickers \<noteq> [] \<and> (\<forall>w. \<forall>t\<in>set tickers. \<exists>q. fst (source w t) = Inr q) \<longrightarrow>
        (\<exists>df. collect_quote_features rnd source now w tickers = Inr df))"
proof (intro conjI allI impI)
  fix df
  assume "collect_quote_features rnd source now w tickers = Inr df"
  from collect_tickers [OF this] obtain rows w'
    where cr: "collect_rows rnd source w tickers = Inr (rows, w')"
      and all: "list_all2 (\<lambda>t rec. map_of rec ''ticker'' = Some (Str (upper t))
                                \<and> map_of rec ''snapshot_utc'' = Some (Str (now w')))
                tickers (df_records df)"
    by blast
  from all have len: "length (df_records df) = length tickers"
    by (simp add: list_all2_lengthD)
  have "\<forall>rec\<in>set (df_records df). map_of rec ''snapshot_utc'' = Some (Str (now w'))"
  proof
    fix r assume "r \<in> set (df_records df)"
    then obtain i where "i < length (df_records df)" "df_records df ! i = r"
      by (auto simp: in_set_conv_nth)
    with all show "map_of r ''snapshot_utc'' = Some (Str (now w'))"
      by (auto simp: list_all2_conv_all_nth)
  qed
  with cr len
  show "\<exists>rows w'. collect_rows rnd source w tickers = Inr (rows, w')
         \<and> length (df_records df) = length tickers
         \<and> (\<forall>rec\<in>set (df_records df). map_of rec ''snapshot_utc'' = Some (Str (now w')))"
    by blast
next
  assume a: "tickers \<noteq> [] \<and> (\<forall>w. \<forall>t\<in>set tickers. \<exists>q. fst (source w t) = Inr q)"
  show "\<exists>df. collect_quote_features rnd source now w tickers = Inr df"
    by (rule collect_succeeds [OF conjunct1 [OF a] conjunct2 [OF a]])
qed

theorem snapshot_utc_shared_witness:
  "\<exists>df. collect_quote_features exact counting_source example_clock 0 [''aapl'', ''MSFT''] = Inr df
     \<and> map (\<lambda>rec. map_of rec ''snapshot_utc'') (df_records df)
         = [Some (Str ''2024-01-01T00:00:02+00:00''), Some (Str ''2024-01-01T00:00:02+00:00'')]"
proof -
  note T = snapshot_utc_shared [of exact counting_source example_clock 0 "[''aapl'', ''MSFT'']"]
  have ne: "[''aapl'', ''MSFT''] \<noteq> []" by simp
  from T [THEN conjunct2, THEN mp, OF conjI, OF ne counting_source_ok]
  obtain df :: "(bool \<times> rat) dataframe" where
    df: "collect_quote_features exact counting_source example_clock 0 [''aapl'', ''MSFT''] = Inr df"
    ..
  from T [THEN conjunct1, THEN spec, THEN mp, OF df] obtain rows w' where
    cr: "collect_rows exact counting_source 0 [''aapl'', ''MSFT''] = Inr (rows, w')"
    and len: "length (df_records df) = length [''aapl'', ''MSFT'']"
    and all: "\<forall>rec\<in>set (df_records df). map_of rec ''snapshot_utc'' = Some (Str (example_clock w'))"
    by (elim exE conjE)
  from counting_source_world [OF cr] have "w' = 2" by simp
  then have clock: "example_clock w' = ''2024-01-01T00:00:02+00:00''"
    by (simp add: example_clock_def)
  from len have l2: "length (df_records df) = Suc (Suc 0)" by simp
  obtain a b where ab: "df_records df = [a, b]"
  proof (cases "df_records df")
    case Nil
    with l2 show ?thesis by simp
  next
    case (Cons a xs)
    with l2 have "length xs = Suc 0" by simp
    then obtain b where "xs = [b]" by (cases xs) auto
    with Cons that show ?thesis by simp
  qed
  from all have "map_of a ''snapshot_utc'' = Some (Str (example_clock w'))"
    "map_of b ''snapshot_utc'' = Some (Str (example_clock w'))"
    unfolding ab by simp_all
  then have res: "map (\<lambda>rec. map_of rec ''snapshot_utc'') (df_records df)
         = [Some (Str ''2024-01-01T00:00:02+00:00''), Some (Str ''2024-01-01T00:00:02+00:00'')]"
    unfolding ab clock by simp
  show ?thesis by (rule exI [of _ df], rule conjI [OF df res])
qed

text \<open>
  Claim C3, as the specification states it, has \<open>collect\<close> trim each ticker.  The
  function \<open>collect_quote_features\<close> only puts the ticker in upper case: for the ticker
  \<^verbatim>\<open>" aapl"\<close> the row holds \<^verbatim>\<open>" AAPL"\<close>, with the blank, and not \<^verbatim>\<open>"AAPL"\<close>.
\<close>

theorem collect_trims_counterexample:
  "\<exists>df. collect_quote_features exact counting_source example_clock 0 ['' aapl''] = Inr df
     \<and> map (\<lambda>rec. map_of rec ''ticker'') (df_records df) = [Some (Str '' AAPL'')]
     \<and> map (\<lambda>rec. map_of rec ''ticker'') (df_records df)
         \<noteq> [Some (Str (upper (strip '' aapl'')))]"
proof -
  have ne: "['' aapl''] \<noteq> []" by simp
  from collect_succeeds [OF ne counting_source_ok, of exact example_clock 0]
  obtain df :: "(bool \<times> rat) dataframe" where
    df: "collect_quote_features exact counting_source example_clock 0 ['' aapl''] = Inr df"
    by blast
  from collect_tickers [OF df] obtain w' where
    all: "list_all2 (\<lambda>t rec. map_of rec ''ticker'' = Some (Str (upper t))
                                \<and> map_of rec ''snapshot_utc'' = Some (Str (example_clock w')))
                ['' aapl''] (df_records df)"
    by blast
  then obtain r where r: "df_records df = [r]"
    and t: "map_of r ''ticker'' = Some (Str (upper '' aapl''))"
    by (auto simp: list_all2_Cons1)
  have u: "upper '' aapl'' = '' AAPL''" by code_simp
  have s: "upper (strip '' aapl'') = ''AAPL''" by code_simp
  from df r t u s show ?thesis by simp
qed

text \<open>
  Claim C3, amended.  \<open>collect_quote_features\<close> puts each ticker in upper case and does
  not trim it; a run that returns has one row for each ticker of the list, in the order of
  the list, duplicates included, and it returns when the list is not empty and the quote
  source raises for none of the tickers.  The trimming is done before, by \<^verbatim>\<open>main\<close> on the
  pieces of its comma-separated argument, which also drops the blank pieces: when every
  piece is blank \<^verbatim>\<open>main\<close> exits before any quote is fetched; otherwise, with a quote
  source that does not raise, it gets a data frame whose rows hold the trimmed,
  upper-cased pieces that are not blank, in their order.  The tickers are texts of which
  the upper case lies in the range of the model.
\<close>

theorem collect_rows_in_order:
  assumes "\<forall>t\<in>set tickers. upper_in_range t" and "upper_in_range arg"
  shows
  "(\<forall>df. collect_quote_features rnd source now w tickers = Inr df \<longrightarrow>
      length (df_records df) = length tickers
      \<and> map (\<lambda>rec. map_of rec ''ticker'') (df_records df)
          = map (\<lambda>t. Some (Str (upper t))) tickers)
   \<and> (tickers \<noteq> [] \<and> (\<forall>w. \<forall>t\<in>set tickers. \<exists>q. fst (source w t) = Inr q) \<longrightarrow>
        (\<exists>df. collect_quote_features rnd source now w tickers = Inr df))
   \<and> ((\<forall>t\<in>set (split_on (CHR '','') arg). strip t = []) \<longrightarrow>
        main_collect rnd source now w arg = Inl SystemExit)
   \<and> ((\<exists>t\<in>set (split_on (CHR '','') arg). strip t \<noteq> [])
          \<and> (\<forall>w t. \<exists>q. fst (source w t) = Inr q) \<longrightarrow>
        (\<exists>df. main_collect rnd source now w arg = Inr df))
   \<and> (\<forall>df. main_collect rnd source now w arg = Inr df \<longrightarrow>
          map (\<lambda>rec. map_of rec ''ticker'') (df_records df)
            = map (\<lambda>t. Some (Str (upper (strip t))))
                (filter (\<lambda>t. strip t \<noteq> []) (split_on (CHR '','') arg)))"
proof (intro conjI allI impI)
  fix df
  assume c: "collect_quote_features rnd source now w tickers = Inr df"
  from collect_ticker_column [OF c]
  show m: "map (\<lambda>rec. map_of rec ''ticker'') (df_records df)
        = map (\<lambda>t. Some (Str (upper t))) tickers" .
  from arg_cong [OF m, of length] show "length (df_records df) = length tickers" by simp
next
  assume a: "tickers \<noteq> [] \<and> (\<forall>w. \<forall>t\<in>set tickers. \<exists>q. fst (source w t) = Inr q)"
  show "\<exists>df. collect_quote_features rnd source now w tickers = Inr df"
    by (rule collect_succeeds [OF conjunct1 [OF a] conjunct2 [OF a]])
next
  assume "\<forall>t\<in>set (split_on (CHR '','') arg). strip t = []"
  from main_tickers_blank [OF this]
  show "main_collect rnd source now w arg = Inl SystemExit"
    by (simp add: main_collect_def)
next
  assume a: "(\<exists>t\<in>set (split_on (CHR '','') arg). strip t \<noteq> [])
          \<and> (\<forall>w t. \<exists>q. fst (source w t) = Inr q)"
  show "\<exists>df. main_collect rnd source now w arg = Inr df"
    by (rule main_collect_succeeds [OF conjunct1 [OF a] conjunct2 [OF a]])
next
  fix df
  assume "main_collect rnd source now w arg = Inr df"
  then show "map (\<lambda>rec. map_of rec ''ticker'') (df_records df)
            = map (\<lambda>t. Some (Str (upper (strip t))))
                (filter (\<lambda>t. strip t \<noteq> []) (split_on (CHR '','') arg))"
    by (rule main_collect_column)
qed

theorem collect_rows_in_order_witness:
  "(\<exists>df. collect_quote_features exact counting_source example_clock 0 [''aapl'', ''MSFT'', ''aapl'']
            = Inr df
      \<and> map (\<lambda>rec. map_of rec ''ticker'') (df_records df)
          = [Some (Str ''AAPL''), Some (Str ''MSFT''), Some (Str ''AAPL'')])
   \<and> (\<exists>df. main_collect exact counting_source example_clock 0 '' aapl ,, msft'' = Inr df
      \<and> map (\<lambda>rec. map_of rec ''ticker'') (df_records df)
          = [Some (Str ''AAPL''), Some (Str ''MSFT'')])
   \<and> main_collect exact counting_source example_clock 0 '' , '' = Inl SystemExit"
proof -
  have r1: "\<forall>t\<in>set [''aapl'', ''MSFT'', ''aapl'']. upper_in_range t" by code_simp
  have r2: "upper_in_range '' aapl ,, msft''" by code_simp
  have r3: "upper_in_range '' , ''" by code_simp
  note T = collect_rows_in_order [OF r1 r2, of exact counting_source example_clock 0]
  note B = collect_rows_in_order [OF r1 r3, of exact counting_source example_clock 0]
  have ne: "[''aapl'', ''MSFT'', ''aapl''] \<noteq> []" by simp
  from T [THEN conjunct2, THEN conjunct1, THEN mp, OF conjI, OF ne counting_source_ok]
  obtain df :: "(bool \<times> rat) dataframe" where
    df: "collect_quote_features exact counting_source example_clock 0
           [''aapl'', ''MSFT'', ''aapl''] = Inr df"
    ..
  from T [THEN conjunct1, THEN spec, THEN mp, OF df, THEN conjunct2]
  have 1: "map (\<lambda>rec. map_of rec ''ticker'') (df_records df)
        = map (\<lambda>t. Some (Str (upper t))) [''aapl'', ''MSFT'', ''aapl'']" .
  have u: "upper ''aapl'' = ''AAPL''" "upper ''MSFT'' = ''MSFT''" by code_simp+
  have c1: "map (\<lambda>rec. map_of rec ''ticker'') (df_records df)
          = [Some (Str ''AAPL''), Some (Str ''MSFT''), Some (Str ''AAPL'')]"
    unfolding 1 by (simp add: u)
  have a: "\<exists>df. collect_quote_features exact counting_source example_clock 0
            [''aapl'', ''MSFT'', ''aapl''] = Inr df
      \<and> map (\<lambda>rec. map_of rec ''ticker'') (df_records df)
          = [Some (Str ''AAPL''), Some (Str ''MSFT''), Some (Str ''AAPL'')]"
    by (rule exI [of _ df], rule conjI [OF df c1])
  have pieces: "split_on (CHR '','') '' aapl ,, msft'' = ['' aapl '', [], '' msft'']"
    by code_simp
  have some: "\<exists>t\<in>set (split_on (CHR '','') '' aapl ,, msft''). strip t \<noteq> []"
    unfolding pieces by code_simp
  have ok: "\<forall>w t. \<exists>q. fst (counting_source w t) = Inr q"
    by (simp add: counting_source_def)
  from T [THEN conjunct2, THEN conjunct2, THEN conjunct2, THEN conjunct1, THEN mp,
          OF conjI, OF some ok]
  obtain mf :: "(bool \<times> rat) dataframe" where
    mf: "main_collect exact counting_source example_clock 0 '' aapl ,, msft'' = Inr mf"
    ..
  from T [THEN conjunct2, THEN conjunct2, THEN conjunct2, THEN conjunct2, THEN spec, THEN mp,
          OF mf]
  have 2: "map (\<lambda>rec. map_of rec ''ticker'') (df_records mf)
            = map (\<lambda>t. Some (Str (upper (strip t))))
                (filter (\<lambda>t. strip t \<noteq> []) (split_on (CHR '','') '' aapl ,, msft''))" .
  have e: "map (\<lambda>t. upper (strip t))
             (filter (\<lambda>t. strip t \<noteq> []) (split_on (CHR '','') '' aapl ,, msft''))
           = [''AAPL'', ''MSFT'']"
    by code_simp
  have "map (\<lambda>t. Some (Str (upper (strip t))) :: (bool \<times> rat) cell option)
             (filter (\<lambda>t. strip t \<noteq> []) (split_on (CHR '','') '' aapl ,, msft''))
        = map (\<lambda>x. Some (Str x))
            (map (\<lambda>t. upper (strip t))
               (filter (\<lambda>t. strip t \<noteq> []) (split_on (CHR '','') '' aapl ,, msft'')))"
    by (simp only: map_map comp_def)
  then have c2: "map (\<lambda>rec. map_of rec ''ticker'') (df_records mf)
          = [Some (Str ''AAPL''), Some (Str ''MSFT'')]"
    unfolding 2 e by simp
  have b: "\<exists>df. main_collect exact counting_source example_clock 0 '' aapl ,, msft'' = Inr df
      \<and> map (\<lambda>rec. map_of rec ''ticker'') (df_records df)
          = [Some (Str ''AAPL''), Some (Str ''MSFT'')]"
    by (rule exI [of _ mf], rule conjI [OF mf c2])
  have blank: "\<forall>t\<in>set (split_on (CHR '','') '' , ''). strip t = []" by code_simp
  from B [THEN conjunct2, THEN conjunct2, THEN conjunct1, THEN mp, OF blank]
  have c: "main_collect exact counting_source example_clock 0 '' , '' = Inl SystemExit" .
  show ?thesis by (rule conjI [OF a conjI [OF b c]])
qed

end
